theory Spec2Isabelle
  imports Main
begin

text \<open>
  A model of \<open>hashira.cpp\<close>: one \<open>main\<close> that builds a JSON document holding the
  coefficients of a quadratic and two base64-encoded roots, writes it to
  \<open>polynomial.json\<close>, reads the file back, decodes the roots, computes the constant
  coefficient and writes the document again.
\<close>

section \<open>Errors\<close>

text \<open>
  The program has no handler: an exception thrown by a library call leaves \<open>main\<close> and
  ends the process through \<open>std::terminate\<close>, with a non-zero status. The model keeps
  the kind of the exception as a value: \<open>ParseError\<close>, \<open>TypeError\<close> and
  \<open>JsonOutOfRange\<close> are the exceptions of the JSON library, \<open>Base64Error\<close> is the
  \<open>std::runtime_error\<close> of the decoder, \<open>InvalidArgument\<close> and \<open>OutOfRange\<close> are
  those of \<open>std::stod\<close>. \<open>UndefinedBehaviour\<close> marks a conversion that C++ leaves
  undefined.
\<close>

datatype error =
  ParseError | TypeError | JsonOutOfRange | Base64Error | InvalidArgument | OutOfRange
  | UndefinedBehaviour

section \<open>Base64 codec\<close>

text \<open>
  Modelled from the spec: the header \<open>base64.hpp\<close> that provides \<open>base64::to_base64\<close>
  and \<open>base64::from_base64\<close> is not among the sources. The spec asks for the
  64-character alphabet of RFC 4648 with \<open>=\<close> padding, and for a decoder that signals a
  format error on malformed input. Bytes are the 8-bit \<open>char\<close> of HOL; the sextet
  arithmetic is written with \<open>div\<close> and \<open>mod\<close> on naturals below \<open>2 ^ 24\<close>, where no
  wrap-around can happen. The value 100 (\<open>0x64\<close>) of \<open>decode_table\<close> marks a character
  outside the alphabet.
\<close>

definition encode_table :: string where
  "encode_table = ''ABCDEFGHIJKLMNOPQRSTUVWXYZabcdefghijklmnopqrstuvwxyz0123456789+/''"

definition enc :: "nat \<Rightarrow> char" where
  "enc i = encode_table ! i"

definition padding_char :: char where
  "padding_char = CHR ''=''"

definition byte_of :: "char \<Rightarrow> nat" where
  "byte_of c = of_char c"

fun encode_into :: "string \<Rightarrow> string" where
  "encode_into (c1 # c2 # c3 # cs) =
     (let t1 = byte_of c1; t2 = byte_of c2; t3 = byte_of c3
      in enc (t1 div 4) # enc ((t1 mod 4) * 16 + t2 div 16)
         # enc ((t2 mod 16) * 4 + t3 div 64) # enc (t3 mod 64) # encode_into cs)"
| "encode_into [c1, c2] =
     (let t1 = byte_of c1; t2 = byte_of c2
      in [enc (t1 div 4), enc ((t1 mod 4) * 16 + t2 div 16), enc ((t2 mod 16) * 4), padding_char])"
| "encode_into [c1] =
     (let t1 = byte_of c1
      in [enc (t1 div 4), enc ((t1 mod 4) * 16), padding_char, padding_char])"
| "encode_into [] = []"

definition to_base64 :: "string \<Rightarrow> string" where
  "to_base64 s = encode_into s"

definition decode_table :: "char \<Rightarrow> nat" where
  "decode_table c =
     (let n = byte_of c
      in if 65 \<le> n \<and> n \<le> 90 then n - 65
         else if 97 \<le> n \<and> n \<le> 122 then n - 71
         else if 48 \<le> n \<and> n \<le> 57 then n + 4
         else if n = 43 then 62
         else if n = 47 then 63
         else 100)"

fun decode_quads :: "string \<Rightarrow> error + string" where
  "decode_quads (t1 # t2 # t3 # t4 # ts) =
     (let d1 = decode_table t1; d2 = decode_table t2;
          d3 = decode_table t3; d4 = decode_table t4
      in if d1 = 100 \<or> d2 = 100 \<or> d3 = 100 \<or> d4 = 100 then Inl Base64Error
         else (case decode_quads ts of
                 Inl e \<Rightarrow> Inl e
               | Inr bs \<Rightarrow>
                   (let temp = d1 * 262144 + d2 * 4096 + d3 * 64 + d4
                    in Inr (char_of (temp div 65536 mod 256) # char_of (temp div 256 mod 256)
                            # char_of (temp mod 256) # bs))))"
| "decode_quads ts = Inr []"

definition decode_tail :: "nat \<Rightarrow> string \<Rightarrow> error + string" where
  "decode_tail numPadding ts =
     (if numPadding = 0 then Inr []
      else if numPadding = 1 then
        (case ts of
           t1 # t2 # t3 # rest \<Rightarrow>
             (let d1 = decode_table t1; d2 = decode_table t2; d3 = decode_table t3
              in if d1 = 100 \<or> d2 = 100 \<or> d3 = 100 then Inl Base64Error
                 else (let temp = d1 * 1024 + d2 * 16 + d3 div 4
                       in Inr [char_of (temp div 256 mod 256), char_of (temp mod 256)]))
         | _ \<Rightarrow> Inl Base64Error)
      else if numPadding = 2 then
        (case ts of
           t1 # t2 # rest \<Rightarrow>
             (let d1 = decode_table t1; d2 = decode_table t2
              in if d1 = 100 \<or> d2 = 100 then Inl Base64Error
                 else (let temp = d1 * 4 + d2 div 16
                       in Inr [char_of (temp mod 256)]))
         | _ \<Rightarrow> Inl Base64Error)
      else Inl Base64Error)"

definition from_base64 :: "string \<Rightarrow> error + string" where
  "from_base64 txt =
     (if txt = [] then Inr []
      else if length txt mod 4 \<noteq> 0 then Inl Base64Error
      else (let numPadding = count_list (drop (length txt - 4) txt) padding_char
            in if numPadding > 2 then Inl Base64Error
               else (let nq = length txt div 4 - (if numPadding \<noteq> 0 then 1 else 0)
                     in case decode_quads (take (4 * nq) txt) of
                          Inl e \<Rightarrow> Inl e
                        | Inr body \<Rightarrow>
                            (case decode_tail numPadding (drop (4 * nq) txt) of
                               Inl e \<Rightarrow> Inl e
                             | Inr tail \<Rightarrow> Inr (body @ tail)))))"

section \<open>Double precision numbers\<close>

text \<open>
  The \<open>double\<close> of the program is IEEE 754 binary64. \<open>Fin s m q\<close> is the finite
  number \<open>(-1)^s * m * 2^q\<close> in the encoding's own normal form: \<open>m < 2^53\<close>,
  \<open>-1074 \<le> q \<le> 971\<close>, and \<open>2^52 \<le> m\<close> unless \<open>q = -1074\<close> (subnormal numbers
  and the two zeros). \<open>round_ratio s num den\<close> is the binary64 number nearest to
  \<open>num / den\<close> with sign \<open>s\<close>, ties to the even mantissa, overflowing to infinity:
  the rounding of every arithmetic operation and of decimal-to-binary conversion.
\<close>

datatype double = Fin bool nat int | Infinity bool | NaN

fun bitlen :: "nat \<Rightarrow> nat" where
  "bitlen n = (if n = 0 then 0 else Suc (bitlen (n div 2)))"

declare bitlen.simps [simp del]

definition binade :: "nat \<Rightarrow> nat \<Rightarrow> int" where
  "binade num den =
     (let e0 = int (bitlen num) - int (bitlen den)
      in if (if 0 \<le> e0 then den * 2 ^ nat e0 \<le> num else den \<le> num * 2 ^ nat (- e0))
         then e0 else e0 - 1)"

definition round_ratio :: "bool \<Rightarrow> nat \<Rightarrow> nat \<Rightarrow> double" where
  "round_ratio s num den =
     (if num = 0 then Fin s 0 (- 1074)
      else (let e = binade num den;
                q = max (e - 52) (- 1074);
                N = (if q < 0 then num * 2 ^ nat (- q) else num);
                D = (if q < 0 then den else den * 2 ^ nat q);
                fl = N div D;
                r = N mod D;
                m = (if 2 * r < D then fl
                     else if D < 2 * r then fl + 1
                     else if even fl then fl else fl + 1);
                m' = (if m = 2 ^ 53 then 2 ^ 52 else m);
                q' = (if m = 2 ^ 53 then q + 1 else q)
            in if 971 < q' then Infinity s else Fin s m' q'))"

definition round_scaled :: "bool \<Rightarrow> nat \<Rightarrow> nat \<Rightarrow> int \<Rightarrow> double" where
  "round_scaled s num den ex =
     (if 0 \<le> ex then round_ratio s (num * 2 ^ nat ex) den
      else round_ratio s num (den * 2 ^ nat (- ex)))"

definition double_of_int :: "int \<Rightarrow> double" where
  "double_of_int i = round_ratio (i < 0) (nat \<bar>i\<bar>) 1"

fun dneg :: "double \<Rightarrow> double" where
  "dneg (Fin s m q) = Fin (\<not> s) m q"
| "dneg (Infinity s) = Infinity (\<not> s)"
| "dneg NaN = NaN"

fun dmul :: "double \<Rightarrow> double \<Rightarrow> double" where
  "dmul (Fin s1 m1 q1) (Fin s2 m2 q2) = round_scaled (s1 \<noteq> s2) (m1 * m2) 1 (q1 + q2)"
| "dmul (Fin s1 m1 q1) (Infinity s2) = (if m1 = 0 then NaN else Infinity (s1 \<noteq> s2))"
| "dmul (Infinity s1) (Fin s2 m2 q2) = (if m2 = 0 then NaN else Infinity (s1 \<noteq> s2))"
| "dmul (Infinity s1) (Infinity s2) = Infinity (s1 \<noteq> s2)"
| "dmul NaN y = NaN"
| "dmul x NaN = NaN"

definition with_sign :: "bool \<Rightarrow> nat \<Rightarrow> int" where
  "with_sign s n = (if s then - int n else int n)"

fun dadd :: "double \<Rightarrow> double \<Rightarrow> double" where
  "dadd (Fin s1 m1 q1) (Fin s2 m2 q2) =
     (let q = min q1 q2;
          z = with_sign s1 (m1 * 2 ^ nat (q1 - q)) + with_sign s2 (m2 * 2 ^ nat (q2 - q))
      in if z = 0 then Fin (s1 \<and> s2) 0 (- 1074)
         else round_scaled (z < 0) (nat \<bar>z\<bar>) 1 q)"
| "dadd (Fin s1 m1 q1) (Infinity s2) = Infinity s2"
| "dadd (Infinity s1) (Fin s2 m2 q2) = Infinity s1"
| "dadd (Infinity s1) (Infinity s2) = (if s1 = s2 then Infinity s1 else NaN)"
| "dadd NaN y = NaN"
| "dadd x NaN = NaN"

fun ddiv :: "double \<Rightarrow> double \<Rightarrow> double" where
  "ddiv (Fin s1 m1 q1) (Fin s2 m2 q2) =
     (if m2 = 0 then (if m1 = 0 then NaN else Infinity (s1 \<noteq> s2))
      else round_scaled (s1 \<noteq> s2) m1 m2 (q1 - q2))"
| "ddiv (Fin s1 m1 q1) (Infinity s2) = Fin (s1 \<noteq> s2) 0 (- 1074)"
| "ddiv (Infinity s1) (Fin s2 m2 q2) = Infinity (s1 \<noteq> s2)"
| "ddiv (Infinity s1) (Infinity s2) = NaN"
| "ddiv NaN y = NaN"
| "ddiv x NaN = NaN"

section \<open>JSON library\<close>

text \<open>
  Modelled from the spec: the header \<open>nlohmann/json.hpp\<close> (the document type
  \<open>json\<close>, its serializer and \<open>json::parse\<close>) is not among the sources. The spec
  describes a structured document with objects, arrays, strings, numbers, booleans and
  null, written as UTF-8 text with 2-space indentation and parsed back into the same
  structured form, failing on malformed text. The model is JSON as in RFC 8259:
  \<^item> an object keeps its members ordered by key (byte-wise), one member per key;
  \<^item> a number without fraction and exponent that fits 64 bits is an integer, every other
    number is a binary64, and one that overflows binary64 is rejected;
  \<^item> a string is a byte sequence; the serializer refuses a string that is not well-formed
    UTF-8, and the parser refuses such text;
  \<^item> a finite binary64 is printed as its exact decimal expansion with at least one
    fractional digit (\<open>20.0\<close>, \<open>3.5\<close>), an infinity or NaN as \<open>null\<close>. The library
    may print a shorter decimal that reads back as the same number; for the values this
    program writes the text is the same.
\<close>

datatype json =
    JNull
  | JBool bool
  | JInt int
  | JFloat double
  | JString string
  | JArray "json list"
  | JObject "(string \<times> json) list"

subsection \<open>Objects\<close>

fun str_less :: "string \<Rightarrow> string \<Rightarrow> bool" where
  "str_less [] [] = False"
| "str_less [] (y # ys) = True"
| "str_less (x # xs) [] = False"
| "str_less (x # xs) (y # ys) = (byte_of x < byte_of y \<or> (x = y \<and> str_less xs ys))"

fun obj_assign :: "string \<Rightarrow> json \<Rightarrow> (string \<times> json) list \<Rightarrow> (string \<times> json) list" where
  "obj_assign k v [] = [(k, v)]"
| "obj_assign k v ((k', v') # ms) =
     (if k = k' then (k, v) # ms
      else if str_less k k' then (k, v) # (k', v') # ms
      else (k', v') # obj_assign k v ms)"

fun obj_emplace :: "string \<Rightarrow> json \<Rightarrow> (string \<times> json) list \<Rightarrow> (string \<times> json) list" where
  "obj_emplace k v [] = [(k, v)]"
| "obj_emplace k v ((k', v') # ms) =
     (if k = k' then (k', v') # ms
      else if str_less k k' then (k, v) # (k', v') # ms
      else (k', v') # obj_emplace k v ms)"

definition json_object :: "(string \<times> json) list \<Rightarrow> json" where
  "json_object kvs = JObject (foldl (\<lambda>ms (k, v). obj_emplace k v ms) [] kvs)"

fun obj_find :: "string \<Rightarrow> (string \<times> json) list \<Rightarrow> json option" where
  "obj_find k [] = None"
| "obj_find k ((k', v') # ms) = (if k = k' then Some v' else obj_find k ms)"

subsection \<open>UTF-8\<close>

fun conts :: "(nat \<times> nat) list \<Rightarrow> string \<Rightarrow> bool" where
  "conts [] cs = True"
| "conts ((lo, hi) # rs) [] = False"
| "conts ((lo, hi) # rs) (c # cs) = (lo \<le> byte_of c \<and> byte_of c \<le> hi \<and> conts rs cs)"

definition utf8_ranges :: "nat \<Rightarrow> (nat \<times> nat) list option" where
  "utf8_ranges b =
     (if b < 0x80 then Some []
      else if 0xC2 \<le> b \<and> b \<le> 0xDF then Some [(0x80, 0xBF)]
      else if b = 0xE0 then Some [(0xA0, 0xBF), (0x80, 0xBF)]
      else if (0xE1 \<le> b \<and> b \<le> 0xEC) \<or> b = 0xEE \<or> b = 0xEF then Some [(0x80, 0xBF), (0x80, 0xBF)]
      else if b = 0xED then Some [(0x80, 0x9F), (0x80, 0xBF)]
      else if b = 0xF0 then Some [(0x90, 0xBF), (0x80, 0xBF), (0x80, 0xBF)]
      else if 0xF1 \<le> b \<and> b \<le> 0xF3 then Some [(0x80, 0xBF), (0x80, 0xBF), (0x80, 0xBF)]
      else if b = 0xF4 then Some [(0x80, 0x8F), (0x80, 0xBF), (0x80, 0xBF)]
      else None)"

definition utf8_head :: "string \<Rightarrow> nat" where
  "utf8_head s =
     (case s of
        [] \<Rightarrow> 0
      | c # cs \<Rightarrow>
          (case utf8_ranges (byte_of c) of
             None \<Rightarrow> 0
           | Some rs \<Rightarrow> if conts rs cs then Suc (length rs) else 0))"

function utf8_valid :: "string \<Rightarrow> bool" where
  "utf8_valid s =
     (if s = [] then True
      else if utf8_head s = 0 then False
      else utf8_valid (drop (utf8_head s) s))"
  by pat_completeness auto
termination
  by (relation "measure length") auto

declare utf8_valid.simps [simp del]

fun json_valid :: "json \<Rightarrow> bool"
  and elems_valid :: "json list \<Rightarrow> bool"
  and members_valid :: "(string \<times> json) list \<Rightarrow> bool" where
  "json_valid (JString s) = utf8_valid s"
| "json_valid (JArray xs) = elems_valid xs"
| "json_valid (JObject ms) = members_valid ms"
| "json_valid JNull = True"
| "json_valid (JBool b) = True"
| "json_valid (JInt i) = True"
| "json_valid (JFloat d) = True"
| "elems_valid [] = True"
| "elems_valid (x # xs) = (json_valid x \<and> elems_valid xs)"
| "members_valid [] = True"
| "members_valid ((k, v) # ms) = (utf8_valid k \<and> json_valid v \<and> members_valid ms)"

subsection \<open>Serializer\<close>

definition digit_char :: "nat \<Rightarrow> char" where
  "digit_char n = char_of (48 + n)"

fun digits_of :: "nat \<Rightarrow> string" where
  "digits_of n = (if n < 10 then [digit_char n] else digits_of (n div 10) @ [digit_char (n mod 10)])"

declare digits_of.simps [simp del]

definition dump_int :: "int \<Rightarrow> string" where
  "dump_int i = (if i < 0 then CHR ''-'' # digits_of (nat (- i)) else digits_of (nat i))"

definition frac_digits :: "nat \<Rightarrow> nat \<Rightarrow> string" where
  "frac_digits k f =
     (let ds = digits_of f;
          padded = replicate (k - length ds) (CHR ''0'') @ ds;
          stripped = rev (dropWhile (\<lambda>c. c = CHR ''0'') (rev padded))
      in if stripped = [] then ''0'' else stripped)"

fun dump_float :: "double \<Rightarrow> string" where
  "dump_float (Fin s m q) =
     (if s then ''-'' else '''') @
     (if 0 \<le> q then digits_of (m * 2 ^ nat q) @ ''.0''
      else (let k = nat (- q); n = m * 5 ^ k
            in digits_of (n div 10 ^ k) @ ''.'' @ frac_digits k (n mod 10 ^ k)))"
| "dump_float (Infinity s) = ''null''"
| "dump_float NaN = ''null''"

definition hex_char :: "nat \<Rightarrow> char" where
  "hex_char n = (if n < 10 then char_of (48 + n) else char_of (87 + n))"

definition escape_char :: "char \<Rightarrow> string" where
  "escape_char c =
     (let b = byte_of c
      in if b = 0x08 then [CHR 0x5C, CHR ''b'']
         else if b = 0x09 then [CHR 0x5C, CHR ''t'']
         else if b = 0x0A then [CHR 0x5C, CHR ''n'']
         else if b = 0x0C then [CHR 0x5C, CHR ''f'']
         else if b = 0x0D then [CHR 0x5C, CHR ''r'']
         else if b = 0x22 then [CHR 0x5C, CHR 0x22]
         else if b = 0x5C then [CHR 0x5C, CHR 0x5C]
         else if b < 0x20 then [CHR 0x5C, CHR ''u'', CHR ''0'', CHR ''0'', hex_char (b div 16), hex_char (b mod 16)]
         else [c])"

definition dump_escaped :: "string \<Rightarrow> string" where
  "dump_escaped s = concat (map escape_char s)"

definition dump_string :: "string \<Rightarrow> string" where
  "dump_string s = [CHR 0x22] @ dump_escaped s @ [CHR 0x22]"

definition indent_string :: "nat \<Rightarrow> string" where
  "indent_string n = replicate n (CHR '' '')"

fun dump_value :: "bool \<Rightarrow> nat \<Rightarrow> nat \<Rightarrow> json \<Rightarrow> string"
  and dump_elems :: "bool \<Rightarrow> nat \<Rightarrow> nat \<Rightarrow> json list \<Rightarrow> string"
  and dump_members :: "bool \<Rightarrow> nat \<Rightarrow> nat \<Rightarrow> (string \<times> json) list \<Rightarrow> string" where
  "dump_value pretty step cur JNull = ''null''"
| "dump_value pretty step cur (JBool b) = (if b then ''true'' else ''false'')"
| "dump_value pretty step cur (JInt i) = dump_int i"
| "dump_value pretty step cur (JFloat d) = dump_float d"
| "dump_value pretty step cur (JString s) = dump_string s"
| "dump_value pretty step cur (JArray xs) =
     (if xs = [] then ''[]''
      else if pretty then ''['' @ [CHR 0x0A] @ dump_elems pretty step (cur + step) xs
                          @ [CHR 0x0A] @ indent_string cur @ '']''
      else ''['' @ dump_elems pretty step cur xs @ '']'')"
| "dump_value pretty step cur (JObject ms) =
     (if ms = [] then ''{}''
      else if pretty then ''{'' @ [CHR 0x0A] @ dump_members pretty step (cur + step) ms
                          @ [CHR 0x0A] @ indent_string cur @ ''}''
      else ''{'' @ dump_members pretty step cur ms @ ''}'')"
| "dump_elems pretty step ind [] = []"
| "dump_elems pretty step ind (x # xs) =
     (if pretty then indent_string ind else []) @ dump_value pretty step ind x
     @ (if xs = [] then [] else '','' @ (if pretty then [CHR 0x0A] else []) @ dump_elems pretty step ind xs)"
| "dump_members pretty step ind [] = []"
| "dump_members pretty step ind ((k, v) # ms) =
     (if pretty then indent_string ind else []) @ dump_string k
     @ (if pretty then '': '' else '':'') @ dump_value pretty step ind v
     @ (if ms = [] then [] else '','' @ (if pretty then [CHR 0x0A] else []) @ dump_members pretty step ind ms)"

definition dump :: "bool \<Rightarrow> nat \<Rightarrow> json \<Rightarrow> error + string" where
  "dump pretty step j = (if json_valid j then Inr (dump_value pretty step 0 j) else Inl TypeError)"

subsection \<open>Lexer\<close>

datatype token =
    TLBrace | TRBrace | TLBracket | TRBracket | TColon | TComma
  | TString string | TInt int | TFloat double
  | TTrue | TFalse | TNull
  | TBad

definition is_ws :: "char \<Rightarrow> bool" where
  "is_ws c = (c = CHR '' '' \<or> c = CHR 0x09 \<or> c = CHR 0x0A \<or> c = CHR 0x0D)"

definition is_digit :: "char \<Rightarrow> bool" where
  "is_digit c = (48 \<le> byte_of c \<and> byte_of c \<le> 57)"

definition digit_val :: "char \<Rightarrow> nat" where
  "digit_val c = byte_of c - 48"

definition nat_of_digits :: "string \<Rightarrow> nat" where
  "nat_of_digits ds = foldl (\<lambda>n c. 10 * n + digit_val c) 0 ds"

definition hex_val :: "char \<Rightarrow> nat option" where
  "hex_val c =
     (let b = byte_of c
      in if 48 \<le> b \<and> b \<le> 57 then Some (b - 48)
         else if 65 \<le> b \<and> b \<le> 70 then Some (b - 55)
         else if 97 \<le> b \<and> b \<le> 102 then Some (b - 87)
         else None)"

fun hex4 :: "string \<Rightarrow> nat option" where
  "hex4 (h1 # h2 # h3 # h4 # rest) =
     (case hex_val h1 of None \<Rightarrow> None | Some a \<Rightarrow>
      case hex_val h2 of None \<Rightarrow> None | Some b \<Rightarrow>
      case hex_val h3 of None \<Rightarrow> None | Some c \<Rightarrow>
      case hex_val h4 of None \<Rightarrow> None | Some d \<Rightarrow>
        Some (a * 4096 + b * 256 + c * 16 + d))"
| "hex4 cs = None"

definition utf8_encode :: "nat \<Rightarrow> string" where
  "utf8_encode cp =
     (if cp < 0x80 then [char_of cp]
      else if cp < 0x800 then [char_of (0xC0 + cp div 64), char_of (0x80 + cp mod 64)]
      else if cp < 0x10000 then
        [char_of (0xE0 + cp div 4096), char_of (0x80 + cp div 64 mod 64), char_of (0x80 + cp mod 64)]
      else
        [char_of (0xF0 + cp div 262144), char_of (0x80 + cp div 4096 mod 64),
         char_of (0x80 + cp div 64 mod 64), char_of (0x80 + cp mod 64)])"

definition scan_unicode :: "string \<Rightarrow> (string \<times> nat) option" where
  "scan_unicode cs =
     (case hex4 cs of
        None \<Rightarrow> None
      | Some cp1 \<Rightarrow>
          if 0xD800 \<le> cp1 \<and> cp1 \<le> 0xDBFF then
            (if take 2 (drop 4 cs) = [CHR 0x5C, CHR ''u''] then
               (case hex4 (drop 6 cs) of
                  None \<Rightarrow> None
                | Some cp2 \<Rightarrow>
                    if 0xDC00 \<le> cp2 \<and> cp2 \<le> 0xDFFF
                    then Some (utf8_encode (0x10000 + (cp1 - 0xD800) * 1024 + (cp2 - 0xDC00)), 10)
                    else None)
             else None)
          else if 0xDC00 \<le> cp1 \<and> cp1 \<le> 0xDFFF then None
          else Some (utf8_encode cp1, 4))"

definition unescape :: "char \<Rightarrow> char option" where
  "unescape e =
     (if e = CHR 0x22 then Some (CHR 0x22)
      else if e = CHR 0x5C then Some (CHR 0x5C)
      else if e = CHR ''/'' then Some (CHR ''/'')
      else if e = CHR ''b'' then Some (CHR 0x08)
      else if e = CHR ''f'' then Some (CHR 0x0C)
      else if e = CHR ''n'' then Some (CHR 0x0A)
      else if e = CHR ''r'' then Some (CHR 0x0D)
      else if e = CHR ''t'' then Some (CHR 0x09)
      else None)"

function scan_string :: "string \<Rightarrow> (string \<times> nat) option" where
  "scan_string [] = None"
| "scan_string (c # cs) =
     (if c = CHR 0x22 then Some ([], 1)
      else if c = CHR 0x5C then
        (case cs of
           [] \<Rightarrow> None
         | e # cs' \<Rightarrow>
             if e = CHR ''u'' then
               (case scan_unicode cs' of
                  None \<Rightarrow> None
                | Some (bs, k) \<Rightarrow>
                    (case scan_string (drop k cs') of
                       None \<Rightarrow> None
                     | Some (s, n) \<Rightarrow> Some (bs @ s, n + k + 2)))
             else
               (case unescape e of
                  None \<Rightarrow> None
                | Some x \<Rightarrow>
                    (case scan_string cs' of
                       None \<Rightarrow> None
                     | Some (s, n) \<Rightarrow> Some (x # s, n + 2))))
      else if byte_of c < 0x20 then None
      else if utf8_head (c # cs) = 0 then None
      else
        (case scan_string (drop (utf8_head (c # cs)) (c # cs)) of
           None \<Rightarrow> None
         | Some (s, n) \<Rightarrow> Some (take (utf8_head (c # cs)) (c # cs) @ s, n + utf8_head (c # cs))))"
  by pat_completeness auto
termination
  by (relation "measure length") auto

declare scan_string.simps [simp del]

definition decimal_value :: "bool \<Rightarrow> nat \<Rightarrow> int \<Rightarrow> double" where
  "decimal_value neg m ex =
     (if 0 \<le> ex then round_ratio neg (m * 10 ^ nat ex) 1
      else round_ratio neg m (10 ^ nat (- ex)))"

definition int_part :: "string \<Rightarrow> string" where
  "int_part s = (if take 1 s = ''0'' then ''0'' else takeWhile is_digit s)"

definition frac_part :: "string \<Rightarrow> string option" where
  "frac_part s = (if take 1 s = ''.'' then Some (takeWhile is_digit (drop 1 s)) else None)"

definition exp_part :: "string \<Rightarrow> (bool \<times> nat \<times> string) option" where
  "exp_part s =
     (if take 1 s = ''e'' \<or> take 1 s = ''E'' then
        (let s4 = drop 1 s;
             esigned = (take 1 s4 = ''-'' \<or> take 1 s4 = ''+'');
             s5 = (if esigned then drop 1 s4 else s4)
         in Some (take 1 s4 = ''-'', if esigned then 1 else 0, takeWhile is_digit s5))
      else None)"

definition integer_token :: "bool \<Rightarrow> nat \<Rightarrow> token" where
  "integer_token neg n =
     (if neg \<and> n \<le> 2 ^ 63 then TInt (- int n)
      else if \<not> neg \<and> n < 2 ^ 64 then TInt (int n)
      else TFloat (decimal_value neg n 0))"

definition scan_number :: "string \<Rightarrow> (token \<times> nat) option" where
  "scan_number s =
     (let neg = (take 1 s = ''-'');
          s1 = (if neg then drop 1 s else s);
          ip = int_part s1;
          s2 = drop (length ip) s1;
          frac = frac_part s2;
          fp = (case frac of None \<Rightarrow> [] | Some ds \<Rightarrow> ds);
          s3 = (case frac of None \<Rightarrow> s2 | Some ds \<Rightarrow> drop (Suc (length ds)) s2);
          n0 = (if neg then 1 else 0) + length ip
               + (case frac of None \<Rightarrow> 0 | Some ds \<Rightarrow> Suc (length ds))
      in if ip = [] \<or> frac = Some [] then None
         else (case exp_part s3 of
                 None \<Rightarrow>
                   Some (if frac = None then integer_token neg (nat_of_digits ip)
                         else TFloat (decimal_value neg (nat_of_digits (ip @ fp)) (- int (length fp))),
                         n0)
               | Some (eneg, k, ep) \<Rightarrow>
                   if ep = [] then None
                   else Some (TFloat (decimal_value neg (nat_of_digits (ip @ fp))
                                        ((if eneg then - int (nat_of_digits ep)
                                          else int (nat_of_digits ep)) - int (length fp))),
                              n0 + 1 + k + length ep)))"

function lex :: "string \<Rightarrow> token list" where
  "lex [] = []"
| "lex (c # cs) =
     (if is_ws c then lex cs
      else if c = CHR ''{'' then TLBrace # lex cs
      else if c = CHR ''}'' then TRBrace # lex cs
      else if c = CHR ''['' then TLBracket # lex cs
      else if c = CHR '']'' then TRBracket # lex cs
      else if c = CHR '':'' then TColon # lex cs
      else if c = CHR '','' then TComma # lex cs
      else if c = CHR 0x22 then
        (case scan_string cs of
           None \<Rightarrow> [TBad]
         | Some (s, n) \<Rightarrow> TString s # lex (drop n cs))
      else if c = CHR ''-'' \<or> is_digit c then
        (case scan_number (c # cs) of
           None \<Rightarrow> [TBad]
         | Some (t, n) \<Rightarrow> t # lex (drop (n - 1) cs))
      else if c = CHR ''t'' \<and> take 3 cs = ''rue'' then TTrue # lex (drop 3 cs)
      else if c = CHR ''f'' \<and> take 4 cs = ''alse'' then TFalse # lex (drop 4 cs)
      else if c = CHR ''n'' \<and> take 3 cs = ''ull'' then TNull # lex (drop 3 cs)
      else [TBad])"
  by pat_completeness auto
termination
  by (relation "measure length") auto

declare lex.simps [simp del]

subsection \<open>Parser\<close>

datatype frame = FArr "json list" | FObj "(string \<times> json) list" string

datatype pstate = PValue | PValueOrClose | PKeyOrClose | PKey | PColon | PNext | PDone json

fun push_value :: "json \<Rightarrow> frame list \<Rightarrow> pstate \<times> frame list" where
  "push_value v [] = (PDone v, [])"
| "push_value v (FArr xs # st) = (PNext, FArr (xs @ [v]) # st)"
| "push_value v (FObj ms k # st) = (PNext, FObj (obj_assign k v ms) k # st)"

definition is_finite :: "double \<Rightarrow> bool" where
  "is_finite d = (case d of Fin s m q \<Rightarrow> True | _ \<Rightarrow> False)"

fun open_value :: "token \<Rightarrow> frame list \<Rightarrow> error + (pstate \<times> frame list)" where
  "open_value TLBrace st = Inr (PKeyOrClose, FObj [] [] # st)"
| "open_value TLBracket st = Inr (PValueOrClose, FArr [] # st)"
| "open_value (TString s) st = Inr (push_value (JString s) st)"
| "open_value (TInt i) st = Inr (push_value (JInt i) st)"
| "open_value (TFloat d) st = (if is_finite d then Inr (push_value (JFloat d) st) else Inl JsonOutOfRange)"
| "open_value TTrue st = Inr (push_value (JBool True) st)"
| "open_value TFalse st = Inr (push_value (JBool False) st)"
| "open_value TNull st = Inr (push_value JNull st)"
| "open_value t st = Inl ParseError"

fun pstep :: "token \<Rightarrow> pstate \<Rightarrow> frame list \<Rightarrow> error + (pstate \<times> frame list)" where
  "pstep t PValue st = open_value t st"
| "pstep TRBracket PValueOrClose (FArr xs # st) = Inr (push_value (JArray xs) st)"
| "pstep t PValueOrClose st = open_value t st"
| "pstep TRBrace PKeyOrClose (FObj ms k # st) = Inr (push_value (JObject ms) st)"
| "pstep (TString k') PKeyOrClose (FObj ms k # st) = Inr (PColon, FObj ms k' # st)"
| "pstep (TString k') PKey (FObj ms k # st) = Inr (PColon, FObj ms k' # st)"
| "pstep TColon PColon st = Inr (PValue, st)"
| "pstep TComma PNext (FArr xs # st) = Inr (PValue, FArr xs # st)"
| "pstep TComma PNext (FObj ms k # st) = Inr (PKey, FObj ms k # st)"
| "pstep TRBracket PNext (FArr xs # st) = Inr (push_value (JArray xs) st)"
| "pstep TRBrace PNext (FObj ms k # st) = Inr (push_value (JObject ms) st)"
| "pstep t p st = Inl ParseError"

fun parse_tokens :: "token list \<Rightarrow> pstate \<Rightarrow> frame list \<Rightarrow> error + json" where
  "parse_tokens [] p st = (case p of PDone v \<Rightarrow> Inr v | _ \<Rightarrow> Inl ParseError)"
| "parse_tokens (t # ts) p st =
     (case pstep t p st of
        Inl e \<Rightarrow> Inl e
      | Inr (p', st') \<Rightarrow> parse_tokens ts p' st')"

definition skip_bom :: "string \<Rightarrow> string" where
  "skip_bom s = (if take 3 s = [CHR 0xEF, CHR 0xBB, CHR 0xBF] then drop 3 s else s)"

definition parse :: "string \<Rightarrow> error + json" where
  "parse s = parse_tokens (lex (skip_bom s)) PValue []"

section \<open>The program\<close>

text \<open>
  \<open>std::stod\<close> and the conversions \<open>get<int>()\<close>, \<open>get<std::string>()\<close> and
  \<open>operator[]\<close> belong to the standard library and to the JSON library; \<open>data\<close>,
  \<open>write_json\<close>, \<open>update_document\<close> and \<open>main\<close> are \<open>main\<close> of
  \<open>hashira.cpp\<close>.
\<close>

subsection \<open>std::stod\<close>

text \<open>
  \<open>std::stod\<close> is \<open>strtod\<close> in the C locale: leading white space, an optional
  sign, then \<open>inf\<close> or \<open>nan\<close>, a hexadecimal literal or a decimal literal; what
  follows the longest such prefix is ignored. No prefix gives \<open>std::invalid_argument\<close>;
  a value that overflows, or one below the least normal number \<open>2^-1022\<close> that is not
  a binary64 itself, gives \<open>std::out_of_range\<close>.
\<close>

definition is_space :: "char \<Rightarrow> bool" where
  "is_space c = (c = CHR '' '' \<or> (9 \<le> byte_of c \<and> byte_of c \<le> 13))"

definition to_lower :: "char \<Rightarrow> char" where
  "to_lower c = (if 65 \<le> byte_of c \<and> byte_of c \<le> 90 then char_of (byte_of c + 32) else c)"

definition is_hex :: "char \<Rightarrow> bool" where
  "is_hex c = (hex_val c \<noteq> None)"

definition nat_of_hex :: "string \<Rightarrow> nat" where
  "nat_of_hex ds = foldl (\<lambda>n c. 16 * n + (case hex_val c of None \<Rightarrow> 0 | Some v \<Rightarrow> v)) 0 ds"

definition exact_ratio :: "nat \<Rightarrow> int \<Rightarrow> nat \<Rightarrow> nat \<Rightarrow> bool" where
  "exact_ratio m q num den =
     (if 0 \<le> q then m * 2 ^ nat q * den = num else m * den = num * 2 ^ nat (- q))"

definition strtod_round :: "bool \<Rightarrow> nat \<Rightarrow> nat \<Rightarrow> error + double" where
  "strtod_round neg num den =
     (case round_ratio neg num den of
        Fin s m q \<Rightarrow>
          if num * 2 ^ 1022 < den \<and> \<not> exact_ratio m q num den then Inl OutOfRange
          else Inr (Fin s m q)
      | d \<Rightarrow> Inl OutOfRange)"

definition scaled_ratio :: "nat \<Rightarrow> nat \<Rightarrow> int \<Rightarrow> nat \<times> nat" where
  "scaled_ratio m b ex = (if 0 \<le> ex then (m * b ^ nat ex, 1) else (m, b ^ nat (- ex)))"

definition scan_exponent :: "string \<Rightarrow> string \<Rightarrow> int" where
  "scan_exponent marks s =
     (let has_e = (s \<noteq> [] \<and> hd s \<in> set marks);
          s1 = drop 1 s;
          eneg = (take 1 s1 = ''-'');
          s2 = (if take 1 s1 = ''-'' \<or> take 1 s1 = ''+'' then drop 1 s1 else s1);
          ep = takeWhile is_digit s2
      in if has_e \<and> ep \<noteq> [] then (if eneg then - int (nat_of_digits ep) else int (nat_of_digits ep))
         else 0)"

definition stod :: "string \<Rightarrow> error + double" where
  "stod str =
     (let s0 = dropWhile is_space str;
          neg = (take 1 s0 = ''-'');
          s1 = (if take 1 s0 = ''-'' \<or> take 1 s0 = ''+'' then drop 1 s0 else s0);
          hs = drop 2 s1;
          hip = takeWhile is_hex hs;
          hs2 = drop (length hip) hs;
          hfp = (if take 1 hs2 = ''.'' then takeWhile is_hex (drop 1 hs2) else []);
          hs3 = (if take 1 hs2 = ''.'' then drop (Suc (length hfp)) hs2 else hs2);
          ip = takeWhile is_digit s1;
          s2 = drop (length ip) s1;
          fp = (if take 1 s2 = ''.'' then takeWhile is_digit (drop 1 s2) else []);
          s3 = (if take 1 s2 = ''.'' then drop (Suc (length fp)) s2 else s2)
      in if map to_lower (take 3 s1) = ''inf'' then Inr (Infinity neg)
         else if map to_lower (take 3 s1) = ''nan'' then Inr NaN
         else if map to_lower (take 2 s1) = ''0x'' \<and> (hip \<noteq> [] \<or> hfp \<noteq> []) then
           (case scaled_ratio (nat_of_hex (hip @ hfp)) 2
                   (scan_exponent ''pP'' hs3 - 4 * int (length hfp)) of
              (num, den) \<Rightarrow> strtod_round neg num den)
         else if ip = [] \<and> fp = [] then Inl InvalidArgument
         else
           (case scaled_ratio (nat_of_digits (ip @ fp)) 10
                   (scan_exponent ''eE'' s3 - int (length fp)) of
              (num, den) \<Rightarrow> strtod_round neg num den))"

subsection \<open>Reading values out of a document\<close>

text \<open>
  \<open>get<int>()\<close> converts a stored 64-bit integer to \<open>int\<close> (32 bits, wrapping), a
  boolean to 0 or 1 and a binary64 by truncation, which C++ leaves undefined outside the
  range of \<open>int\<close>; any other value is a type error. \<open>operator[]\<close> with a key
  reads a member of an object; on null, and for a key the object lacks, it yields null
  (the library inserts that null member into the document, which only a later
  assignment or an abort can follow here); on any other value it is a type error.
\<close>

definition int32_wrap :: "int \<Rightarrow> int" where
  "int32_wrap n = (n + 2 ^ 31) mod 2 ^ 32 - 2 ^ 31"

definition trunc_toward_zero :: "double \<Rightarrow> int option" where
  "trunc_toward_zero d =
     (case d of
        Fin s m q \<Rightarrow>
          Some (let mag = (if 0 \<le> q then m * 2 ^ nat q else m div 2 ^ nat (- q))
                in if s then - int mag else int mag)
      | _ \<Rightarrow> None)"

fun get_int :: "json \<Rightarrow> error + int" where
  "get_int (JInt n) = Inr (int32_wrap n)"
| "get_int (JFloat d) =
     (case trunc_toward_zero d of
        None \<Rightarrow> Inl UndefinedBehaviour
      | Some t \<Rightarrow> if - (2 ^ 31) \<le> t \<and> t < 2 ^ 31 then Inr t else Inl UndefinedBehaviour)"
| "get_int (JBool b) = Inr (if b then 1 else 0)"
| "get_int j = Inl TypeError"

fun get_string :: "json \<Rightarrow> error + string" where
  "get_string (JString s) = Inr s"
| "get_string j = Inl TypeError"

fun at_key :: "json \<Rightarrow> string \<Rightarrow> error + json" where
  "at_key JNull k = Inr JNull"
| "at_key (JObject ms) k = Inr (case obj_find k ms of None \<Rightarrow> JNull | Some v \<Rightarrow> v)"
| "at_key j k = Inl TypeError"

fun put_key :: "json \<Rightarrow> string \<Rightarrow> json \<Rightarrow> error + json" where
  "put_key JNull k v = Inr (JObject [(k, v)])"
| "put_key (JObject ms) k v = Inr (JObject (obj_assign k v ms))"
| "put_key j k v = Inl TypeError"

definition bind :: "error + 'a \<Rightarrow> ('a \<Rightarrow> error + 'b) \<Rightarrow> error + 'b" where
  "bind x f = (case x of Inl e \<Rightarrow> Inl e | Inr v \<Rightarrow> f v)"

subsection \<open>The file\<close>

text \<open>
  The one file the program touches, a regular file or a path where no file exists yet:
  \<open>content\<close> is what the file holds (\<open>None\<close> when it does not exist), \<open>writable\<close> tells whether \<open>std::ofstream\<close> can open
  the path (creating the file when it is missing), \<open>readable\<close> whether
  \<open>std::ifstream\<close> can open the file once it exists; the two are independent, as
  for a file of mode 0200. The program never looks at the state of a stream: an
  \<open>ofstream\<close> that failed to open ignores what is inserted into it and throws
  nothing, and an \<open>ifstream\<close> that failed to open gives the parser an empty input.
  An \<open>ofstream\<close> that opens truncates the file; \<open>write_json\<close> is
  \<open>out << std::setw(2) << j << std::endl\<close>.
\<close>

record fs =
  content :: "string option"
  writable :: bool
  readable :: bool

definition write_json :: "json \<Rightarrow> fs \<Rightarrow> error + fs" where
  "write_json j f =
     bind (dump True 2 j)
       (\<lambda>txt. Inr (if writable f then f\<lparr>content := Some (txt @ [CHR 0x0A])\<rparr> else f))"

definition read_file :: "fs \<Rightarrow> string" where
  "read_file f =
     (case content f of
        None \<Rightarrow> []
      | Some txt \<Rightarrow> if readable f then txt else [])"

subsection \<open>main\<close>

text \<open>
  What the program sends to \<open>std::cout\<close>, line by line; a number is kept as the value
  that is printed, not as its decimal text.
\<close>

datatype out_line =
    JsonWritten
  | DecodedHeader
  | FormLine string
  | CoeffLine int int string
  | AlphaLine double
  | BetaLine double
  | ComputedHeader
  | SumLine double double
  | ProductLine double
  | ConstantLine double
  | UpdatedWritten

datatype exit_status = Exit0 "out_line list" | Aborted error

text \<open>Lines 25 to 45: the literal inputs and the document built from them.\<close>

definition data :: json where
  "data =
     (let a = 2;
          b = - 7;
          alpha_plain = ''2'';
          beta_plain = ''5'';
          alpha_b64 = to_base64 alpha_plain;
          beta_b64 = to_base64 beta_plain
      in json_object
           [(''polynomial'',
               json_object [(''a'', JInt a), (''b'', JInt b), (''c'', JNull),
                            (''form'', JString ''ax^2 + bx + c = 0'')]),
            (''roots_base64'',
               json_object [(''alpha'', JString alpha_b64), (''beta'', JString beta_b64)])])"

text \<open>
  Lines 56 to 94: parse the text read back, extract \<open>a\<close> and \<open>b\<close>, decode the two
  roots and convert them with \<open>std::stod\<close>, print, compute
  \<open>c = a * (alpha * beta)\<close> and store it in the loaded document. Each step that can
  throw is a \<open>bind\<close>, in the order of the source.
\<close>

definition update_document :: "string \<Rightarrow> error + (json \<times> out_line list)" where
  "update_document txt =
     bind (parse txt) (\<lambda>loaded.
     bind (at_key loaded ''polynomial'') (\<lambda>poly.
     bind (at_key poly ''a'') (\<lambda>aj.
     bind (get_int aj) (\<lambda>a_loaded.
     bind (at_key poly ''b'') (\<lambda>bj.
     bind (get_int bj) (\<lambda>b_loaded.
     bind (at_key loaded ''roots_base64'') (\<lambda>roots.
     bind (at_key roots ''alpha'') (\<lambda>alphaj.
     bind (get_string alphaj) (\<lambda>alpha_b64_in.
     bind (at_key roots ''beta'') (\<lambda>betaj.
     bind (get_string betaj) (\<lambda>beta_b64_in.
     bind (from_base64 alpha_b64_in) (\<lambda>alpha_str.
     bind (from_base64 beta_b64_in) (\<lambda>beta_str.
     bind (stod alpha_str) (\<lambda>alpha.
     bind (stod beta_str) (\<lambda>beta.
     bind (at_key poly ''form'') (\<lambda>formj.
     bind (get_string formj) (\<lambda>form.
     bind (at_key poly ''c'') (\<lambda>cj.
     bind (if cj = JNull then Inr ''null'' else dump False 0 cj) (\<lambda>c_text.
     (let c_computed = dmul (double_of_int a_loaded) (dmul alpha beta);
          out = [DecodedHeader, FormLine form, CoeffLine a_loaded b_loaded c_text,
                 AlphaLine alpha, BetaLine beta, ComputedHeader,
                 SumLine (dadd alpha beta)
                         (ddiv (dneg (double_of_int b_loaded)) (double_of_int a_loaded)),
                 ProductLine (dmul alpha beta), ConstantLine c_computed]
      in bind (put_key poly ''c'' (JFloat c_computed)) (\<lambda>poly'.
         bind (put_key loaded ''polynomial'' poly') (\<lambda>loaded'.
         Inr (loaded', out)))))))))))))))))))))))"

text \<open>
  Lines 47 to 101. A serializer that throws has already truncated a writable file
  (\<open>truncated\<close>).
\<close>

definition truncated :: "fs \<Rightarrow> fs" where
  "truncated f = (if writable f then f\<lparr>content := Some []\<rparr> else f)"

definition main :: "fs \<Rightarrow> exit_status \<times> fs" where
  "main f0 =
     (case write_json data f0 of
        Inl e \<Rightarrow> (Aborted e, truncated f0)
      | Inr f1 \<Rightarrow>
          (case update_document (read_file f1) of
             Inl e \<Rightarrow> (Aborted e, f1)
           | Inr (loaded', out) \<Rightarrow>
               (case write_json loaded' f1 of
                  Inl e \<Rightarrow> (Aborted e, truncated f1)
                | Inr f2 \<Rightarrow> (Exit0 ([JsonWritten] @ out @ [UpdatedWritten]), f2))))"

subsection \<open>The two documents of a run\<close>

text \<open>
  \<open>first_text\<close> and \<open>second_text\<close> are the file after the first and after the second
  write of a run whose writes take effect; \<open>updated\<close> is the document of the second
  write and \<open>printed\<close> the output of that run. \<open>alt_text\<close> is a document with another
  first root, \<open>"Mw=="\<close> for the text \<open>"3"\<close>; \<open>alt_data\<close> is its value,
  \<open>alt_updated\<close> the document the program makes of it and \<open>alt_printed\<close> what the
  program prints when it reads it. The numbers are written in their binary64 encoding:
  \<open>4503599627370496 * 2^-51 = 2\<close>, \<open>5629499534213120 * 2^-50 = 5\<close>,
  \<open>7881299347898368 * 2^-50 = 7\<close>, \<open>7881299347898368 * 2^-51 = 3.5\<close>,
  \<open>5629499534213120 * 2^-49 = 10\<close>, \<open>5629499534213120 * 2^-48 = 20\<close>,
  \<open>6755399441055744 * 2^-51 = 3\<close>, \<open>4503599627370496 * 2^-49 = 8\<close>,
  \<open>8444249301319680 * 2^-49 = 15\<close> and \<open>8444249301319680 * 2^-48 = 30\<close>.
\<close>

definition first_text :: string where
  \<open>first_text = ''{\<newline>  "polynomial": {\<newline>    "a": 2,\<newline>    "b": -7,\<newline>    "c": null,\<newline>    "form": "ax^2 + bx + c = 0"\<newline>  },\<newline>  "roots_base64": {\<newline>    "alpha": "Mg==",\<newline>    "beta": "NQ=="\<newline>  }\<newline>}\<newline>''\<close>

definition second_text :: string where
  \<open>second_text = ''{\<newline>  "polynomial": {\<newline>    "a": 2,\<newline>    "b": -7,\<newline>    "c": 20.0,\<newline>    "form": "ax^2 + bx + c = 0"\<newline>  },\<newline>  "roots_base64": {\<newline>    "alpha": "Mg==",\<newline>    "beta": "NQ=="\<newline>  }\<newline>}\<newline>''\<close>

definition alt_text :: string where
  \<open>alt_text = ''{\<newline>  "polynomial": {\<newline>    "a": 2,\<newline>    "b": -7,\<newline>    "c": null,\<newline>    "form": "ax^2 + bx + c = 0"\<newline>  },\<newline>  "roots_base64": {\<newline>    "alpha": "Mw==",\<newline>    "beta": "NQ=="\<newline>  }\<newline>}\<newline>''\<close>

definition updated :: json where
  "updated = JObject
     [(''polynomial'',
        JObject [(''a'', JInt 2), (''b'', JInt (- 7)), (''c'', JFloat (Fin False 5629499534213120 (- 48))),
                 (''form'', JString ''ax^2 + bx + c = 0'')]),
      (''roots_base64'',
        JObject [(''alpha'', JString ''Mg==''), (''beta'', JString ''NQ=='')])]"

definition printed :: "out_line list" where
  "printed =
     [JsonWritten, DecodedHeader, FormLine ''ax^2 + bx + c = 0'', CoeffLine 2 (- 7) ''null'',
      AlphaLine (Fin False 4503599627370496 (- 51)),
      BetaLine (Fin False 5629499534213120 (- 50)), ComputedHeader,
      SumLine (Fin False 7881299347898368 (- 50)) (Fin False 7881299347898368 (- 51)),
      ProductLine (Fin False 5629499534213120 (- 49)),
      ConstantLine (Fin False 5629499534213120 (- 48)), UpdatedWritten]"




text \<open>
  Reading a member of a member out of a document text; the keys of an object.
\<close>

definition field :: "string \<Rightarrow> string \<Rightarrow> string \<Rightarrow> error + json" where
  "field txt k1 k2 = bind (parse txt) (\<lambda>d. bind (at_key d k1) (\<lambda>o1. at_key o1 k2))"


subsection \<open>Records\<close>

text \<open>
  The document of lines 25 to 45 with its values left open: the coefficients \<open>a\<close> and
  \<open>b\<close>, which are C++ \<open>int\<close>s; the coefficient \<open>c\<close>, which is \<open>null\<close> (\<open>None\<close>) or a
  \<open>double\<close>; and the two roots as plain text, stored in base64. The document \<open>data\<close> is
  \<open>record_value 2 (- 7) None ''2'' ''5''\<close>.

  \<open>is_int32\<close> is the range of a C++ \<open>int\<close>. \<open>is_double\<close> says that a mantissa and an
  exponent are the encoding of a binary64 value: the mantissa is below \<open>2^53\<close> and at least
  \<open>2^52\<close> unless the exponent is the least one, \<open>- 1074\<close>; the exponent is at most
  \<open>971\<close>. \<open>c_double\<close> asks it of the coefficient \<open>c\<close>, when that is a number.

  \<open>described c\<close> is what a document says about \<open>c\<close>: an infinity and a NaN are written
  as \<open>null\<close>.

  \<open>reserialize j f\<close> writes the document \<open>j\<close> to the file as lines 49 to 52 do, parses
  the file as lines 56 to 60 do, writes the parsed document and parses the file again;
  it returns the two parsed documents, each with the file it was read from.
\<close>

definition is_int32 :: "int \<Rightarrow> bool" where
  "is_int32 i = (- (2 ^ 31) \<le> i \<and> i < 2 ^ 31)"

definition is_double :: "double \<Rightarrow> bool" where
  "is_double d =
     (case d of
        Fin s m q \<Rightarrow> m < 2 ^ 53 \<and> - 1074 \<le> q \<and> q \<le> 971 \<and> (q = - 1074 \<or> 2 ^ 52 \<le> m)
      | _ \<Rightarrow> True)"

definition c_double :: "double option \<Rightarrow> bool" where
  "c_double c = (case c of None \<Rightarrow> True | Some x \<Rightarrow> is_double x)"

definition c_json :: "double option \<Rightarrow> json" where
  "c_json c = (case c of None \<Rightarrow> JNull | Some x \<Rightarrow> JFloat x)"

definition record_value :: "int \<Rightarrow> int \<Rightarrow> double option \<Rightarrow> string \<Rightarrow> string \<Rightarrow> json" where
  "record_value a b c alpha_plain beta_plain =
     json_object
       [(''polynomial'',
           json_object [(''a'', JInt a), (''b'', JInt b), (''c'', c_json c),
                        (''form'', JString ''ax^2 + bx + c = 0'')]),
        (''roots_base64'',
           json_object [(''alpha'', JString (to_base64 alpha_plain)),
                        (''beta'', JString (to_base64 beta_plain))])]"

definition described :: "double option \<Rightarrow> double option" where
  "described c = (case c of None \<Rightarrow> None | Some x \<Rightarrow> if is_finite x then Some x else None)"

definition reserialize :: "json \<Rightarrow> fs \<Rightarrow> error + ((json \<times> fs) \<times> (json \<times> fs))" where
  "reserialize j f =
     bind (write_json j f) (\<lambda>f1.
     bind (parse (read_file f1)) (\<lambda>j1.
     bind (write_json j1 f1) (\<lambda>f2.
     bind (parse (read_file f2)) (\<lambda>j2. Inr ((j1, f1), (j2, f2))))))"

subsection \<open>Notions of the proofs\<close>

text \<open>
  \<open>ge_pow2 num den e\<close> is \<open>2^e \<le> num / den\<close>, the test that \<open>binade\<close> makes.
  \<open>digit_end\<close> and \<open>number_end\<close> hold of a text that does not go on with a digit, and
  with none of a digit, a point and an exponent mark. \<open>plain_char\<close> holds of the
  printable ASCII characters other than the quote and the backslash, which are written
  and read as themselves. \<open>c_text\<close> and \<open>c_token\<close> are the text written for the
  coefficient \<open>c\<close> and the token read from it.
\<close>

definition ge_pow2 :: "nat \<Rightarrow> nat \<Rightarrow> int \<Rightarrow> bool" where
  "ge_pow2 num den e = (if 0 \<le> e then den * 2 ^ nat e \<le> num else den \<le> num * 2 ^ nat (- e))"

definition digit_end :: "string \<Rightarrow> bool" where
  "digit_end rest = (case rest of [] \<Rightarrow> True | c # cs \<Rightarrow> \<not> is_digit c)"

definition number_end :: "string \<Rightarrow> bool" where
  "number_end rest = (case rest of [] \<Rightarrow> True
     | c # cs \<Rightarrow> \<not> is_digit c \<and> c \<noteq> CHR ''.'' \<and> c \<noteq> CHR ''e'' \<and> c \<noteq> CHR ''E'')"

definition plain_char :: "char \<Rightarrow> bool" where
  "plain_char c = (0x20 \<le> byte_of c \<and> byte_of c < 0x80 \<and> c \<noteq> CHR 0x22 \<and> c \<noteq> CHR 0x5C)"

definition c_text :: "double option \<Rightarrow> string" where
  "c_text c = (case c of None \<Rightarrow> ''null'' | Some x \<Rightarrow> dump_float x)"

definition c_token :: "double option \<Rightarrow> token" where
  "c_token c = (case described c of None \<Rightarrow> TNull | Some x \<Rightarrow> TFloat x)"

section \<open>Properties of the codec\<close>

lemma decode_enc: "i < 64 \<Longrightarrow> decode_table (enc i) = i"
proof -
  have "\<forall>i<64. decode_table (enc i) = i"
    by (simp add: All_less_Suc numeral_eq_Suc enc_def encode_table_def decode_table_def byte_of_def)
  then show "i < 64 \<Longrightarrow> decode_table (enc i) = i" by blast
qed

lemma enc_not_padding: "i < 64 \<Longrightarrow> enc i \<noteq> padding_char"
proof -
  have "\<forall>i<64. enc i \<noteq> padding_char"
    by (simp add: All_less_Suc numeral_eq_Suc enc_def encode_table_def padding_char_def)
  then show "i < 64 \<Longrightarrow> enc i \<noteq> padding_char" by blast
qed

lemma byte_of_less: "byte_of c < 256"
proof -
  have "byte_of c mod 256 = byte_of c" by (simp add: byte_of_def)
  then show ?thesis by (metis mod_less_divisor zero_less_numeral)
qed

lemma char_of_byte_of: "char_of (byte_of c) = c"
  by (simp add: byte_of_def)

lemma div_qr: "r < k \<Longrightarrow> (q * k + r) div k = (q::nat)"
  by simp

lemma mod_qr: "r < k \<Longrightarrow> (q * k + r) mod k = (r::nat)"
  by simp

lemma quad_value_aux:
  fixes t1 t2 t3 :: nat
  assumes "t1 = q1 * 4 + r1" "t2 = q2 * 16 + r2" "t3 = q3 * 64 + r3"
  shows "q1 * 262144 + (r1 * 16 + q2) * 4096 + (r2 * 4 + q3) * 64 + r3
         = t1 * 65536 + t2 * 256 + t3"
  using assms by simp

lemma quad_value:
  fixes t1 t2 t3 :: nat
  shows "(t1 div 4) * 262144 + ((t1 mod 4) * 16 + t2 div 16) * 4096
         + ((t2 mod 16) * 4 + t3 div 64) * 64 + t3 mod 64
         = t1 * 65536 + t2 * 256 + t3"
  by (rule quad_value_aux) simp_all

lemma quad_bytes:
  fixes t1 t2 t3 :: nat
  assumes "t1 < 256" "t2 < 256" "t3 < 256"
  shows "(t1 * 65536 + t2 * 256 + t3) div 65536 mod 256 = t1"
    and "(t1 * 65536 + t2 * 256 + t3) div 256 mod 256 = t2"
    and "(t1 * 65536 + t2 * 256 + t3) mod 256 = t3"
proof -
  have lt: "t2 * 256 + t3 < 65536" using assms by linarith
  have e1: "t1 * 65536 + t2 * 256 + t3 = t1 * 65536 + (t2 * 256 + t3)" by simp
  have e2: "t1 * 65536 + t2 * 256 + t3 = (t1 * 256 + t2) * 256 + t3" by simp
  have "(t1 * 65536 + t2 * 256 + t3) div 65536 = t1"
    unfolding e1 using lt by (rule div_qr)
  then show "(t1 * 65536 + t2 * 256 + t3) div 65536 mod 256 = t1"
    using assms by simp
  have "(t1 * 65536 + t2 * 256 + t3) div 256 = t1 * 256 + t2"
    unfolding e2 using assms(3) by (rule div_qr)
  moreover have "(t1 * 256 + t2) mod 256 = t2"
    using assms(2) by (rule mod_qr)
  ultimately show "(t1 * 65536 + t2 * 256 + t3) div 256 mod 256 = t2"
    by simp
  show "(t1 * 65536 + t2 * 256 + t3) mod 256 = t3"
    unfolding e2 using assms(3) by (rule mod_qr)
qed

lemma tail1_value_aux:
  fixes t1 t2 :: nat
  assumes "t1 = q1 * 4 + r1" "t2 = q2 * 16 + r2"
  shows "q1 * 1024 + (r1 * 16 + q2) * 16 + r2 = t1 * 256 + t2"
  using assms by simp

lemma tail1_value:
  fixes t1 t2 :: nat
  shows "(t1 div 4) * 1024 + ((t1 mod 4) * 16 + t2 div 16) * 16 + ((t2 mod 16) * 4) div 4
         = t1 * 256 + t2"
proof -
  have "((t2 mod 16) * 4) div 4 = t2 mod 16" by simp
  moreover have "(t1 div 4) * 1024 + ((t1 mod 4) * 16 + t2 div 16) * 16 + t2 mod 16
        = t1 * 256 + t2"
    by (rule tail1_value_aux) simp_all
  ultimately show ?thesis by simp
qed

lemma tail1_bytes:
  fixes t1 t2 :: nat
  assumes "t1 < 256" "t2 < 256"
  shows "(t1 * 256 + t2) div 256 mod 256 = t1"
    and "(t1 * 256 + t2) mod 256 = t2"
  using assms by simp_all

lemma tail2_value:
  fixes t1 :: nat
  assumes "t1 < 256"
  shows "((t1 div 4) * 4 + ((t1 mod 4) * 16) div 16) mod 256 = t1"
  using assms by simp

lemma sextet_bounds:
  fixes t1 t2 t3 :: nat
  assumes "t1 < 256" "t2 < 256" "t3 < 256"
  shows "t1 div 4 < 64" "(t1 mod 4) * 16 + t2 div 16 < 64"
        "(t2 mod 16) * 4 + t3 div 64 < 64" "t3 mod 64 < 64"
        "(t2 mod 16) * 4 < 64" "(t1 mod 4) * 16 < 64"
proof -
  have a: "t1 mod 4 < 4" "t2 mod 16 < 16" by simp_all
  have b: "t2 div 16 < 16" "t3 div 64 < 4"
    using assms by (simp_all add: less_mult_imp_div_less)
  show "t1 div 4 < 64" using assms by (simp add: less_mult_imp_div_less)
  show "(t1 mod 4) * 16 + t2 div 16 < 64" using a b by linarith
  show "(t2 mod 16) * 4 + t3 div 64 < 64" using a b by linarith
  show "t3 mod 64 < 64" by simp
  show "(t2 mod 16) * 4 < 64" using a by linarith
  show "(t1 mod 4) * 16 < 64" using a by linarith
qed

lemma byte_of_div_256: "byte_of c div 256 = 0"
  by (simp add: byte_of_less)

lemma char_of_eqI: "n mod 256 = byte_of c \<Longrightarrow> char_of n = c"
  by (metis char_of_mod_256 char_of_byte_of)

lemma quad_chars:
  "char_of ((byte_of c1 * 65536 + byte_of c2 * 256 + byte_of c3) div 65536) = c1"
  "char_of ((byte_of c1 * 65536 + byte_of c2 * 256 + byte_of c3) div 256) = c2"
  "char_of (byte_of c1 * 65536 + byte_of c2 * 256 + byte_of c3) = c3"
  by (rule char_of_eqI, rule quad_bytes; rule byte_of_less)+

lemma tail1_chars:
  "char_of ((byte_of c1 * 256 + byte_of c2) div 256) = c1"
  "char_of (byte_of c1 * 256 + byte_of c2) = c2"
  by (rule char_of_eqI, rule tail1_bytes; rule byte_of_less)+

lemma tail2_char:
  "char_of ((byte_of c1 div 4) * 4 + ((byte_of c1 mod 4) * 16) div 16) = c1"
  by (rule char_of_eqI, rule tail2_value, rule byte_of_less)

lemma decode_table_padding: "decode_table padding_char = 100"
  by (simp add: decode_table_def padding_char_def byte_of_def)

lemma length_encode_into: "length (encode_into s) mod 4 = 0"
  by (induction s rule: encode_into.induct) (simp_all add: Let_def)

lemma encode_into_Nil_iff: "encode_into s = [] \<longleftrightarrow> s = []"
  by (induction s rule: encode_into.induct) (simp_all add: Let_def)

lemma from_base64_quad_step:
  assumes v: "decode_table a \<noteq> 100" "decode_table b \<noteq> 100"
             "decode_table c \<noteq> 100" "decode_table d \<noteq> 100"
      and r: "r \<noteq> []" "length r mod 4 = 0"
  shows "from_base64 (a # b # c # d # r) =
           (case from_base64 r of
              Inl e \<Rightarrow> Inl e
            | Inr bs \<Rightarrow>
                (let temp = decode_table a * 262144 + decode_table b * 4096
                            + decode_table c * 64 + decode_table d
                 in Inr (char_of (temp div 65536 mod 256) # char_of (temp div 256 mod 256)
                         # char_of (temp mod 256) # bs)))"
proof -
  obtain k where k: "length r = 4 * Suc k"
  proof -
    from r have "length r \<noteq> 0" "4 dvd length r" by auto
    then obtain j where j: "length r = 4 * j" "j \<noteq> 0" by (auto elim: dvdE)
    then obtain k where "j = Suc k" by (cases j) auto
    with j that show thesis by blast
  qed
  define p where "p = count_list (drop (length r - 4) r) padding_char"
  define m where "m = length r div 4 - (if p \<noteq> 0 then 1 else 0)"
  have dr: "drop (length (a # b # c # d # r) - 4) (a # b # c # d # r) = drop (length r - 4) r"
    using k by (simp add: drop_Cons')
  have nq: "length (a # b # c # d # r) div 4 - (if p \<noteq> 0 then 1 else 0) = Suc m"
    using k by (simp add: m_def)
  have tk: "take (4 * Suc m) (a # b # c # d # r) = a # b # c # d # take (4 * m) r"
    by (simp add: take_Cons')
  have dp: "drop (4 * Suc m) (a # b # c # d # r) = drop (4 * m) r"
    by (simp add: drop_Cons')
  have len: "length (a # b # c # d # r) mod 4 = 0" using r by simp
  have A: "from_base64 r =
      (if 2 < p then Inl Base64Error
       else case decode_quads (take (4 * m) r) of
              Inl e \<Rightarrow> Inl e
            | Inr body \<Rightarrow>
                (case decode_tail p (drop (4 * m) r) of
                   Inl e \<Rightarrow> Inl e
                 | Inr tail \<Rightarrow> Inr (body @ tail)))"
    unfolding from_base64_def p_def[symmetric] Let_def m_def[symmetric]
    using r by simp
  have B: "from_base64 (a # b # c # d # r) =
      (if 2 < p then Inl Base64Error
       else case decode_quads (a # b # c # d # take (4 * m) r) of
              Inl e \<Rightarrow> Inl e
            | Inr body \<Rightarrow>
                (case decode_tail p (drop (4 * m) r) of
                   Inl e \<Rightarrow> Inl e
                 | Inr tail \<Rightarrow> Inr (body @ tail)))"
    unfolding from_base64_def dr p_def[symmetric] Let_def nq tk dp
    using len by simp
  show ?thesis
    unfolding A B using v
    by (simp add: Let_def split: sum.splits)
qed

lemma from_base64_to_base64: "from_base64 (to_base64 s) = Inr s"
  unfolding to_base64_def
proof (induction s rule: encode_into.induct)
  case (1 c1 c2 c3 cs)
  let ?t1 = "byte_of c1" and ?t2 = "byte_of c2" and ?t3 = "byte_of c3"
  let ?e1 = "enc (?t1 div 4)" and ?e2 = "enc ((?t1 mod 4) * 16 + ?t2 div 16)"
  let ?e3 = "enc ((?t2 mod 16) * 4 + ?t3 div 64)" and ?e4 = "enc (?t3 mod 64)"
  note b = sextet_bounds[OF byte_of_less[of c1] byte_of_less[of c2] byte_of_less[of c3]]
  have d: "decode_table ?e1 = ?t1 div 4" "decode_table ?e2 = (?t1 mod 4) * 16 + ?t2 div 16"
          "decode_table ?e3 = (?t2 mod 16) * 4 + ?t3 div 64" "decode_table ?e4 = ?t3 mod 64"
    using b by (simp_all add: decode_enc)
  have v: "decode_table ?e1 \<noteq> 100" "decode_table ?e2 \<noteq> 100"
          "decode_table ?e3 \<noteq> 100" "decode_table ?e4 \<noteq> 100"
    unfolding d using b by simp_all
  have np: "?e1 \<noteq> padding_char" "?e2 \<noteq> padding_char" "?e3 \<noteq> padding_char" "?e4 \<noteq> padding_char"
    using b by (simp_all add: enc_not_padding)
  have temp: "decode_table ?e1 * 262144 + decode_table ?e2 * 4096 + decode_table ?e3 * 64
              + decode_table ?e4 = ?t1 * 65536 + ?t2 * 256 + ?t3"
    unfolding d by (rule quad_value)
  have enc_eq: "encode_into (c1 # c2 # c3 # cs) = ?e1 # ?e2 # ?e3 # ?e4 # encode_into cs"
    by (simp add: Let_def)
  show ?case
  proof (cases "cs = []")
    case True
    have "from_base64 [?e1, ?e2, ?e3, ?e4] = Inr [c1, c2, c3]"
      unfolding from_base64_def using v np
      by (simp add: Let_def temp quad_chars decode_tail_def)
    then show ?thesis using True enc_eq by simp
  next
    case False
    then have ne: "encode_into cs \<noteq> []" by (simp add: encode_into_Nil_iff)
    show ?thesis
      unfolding enc_eq
      by (simp add: from_base64_quad_step[OF v ne length_encode_into] "1.IH" Let_def temp
            quad_chars del: encode_into.simps)
  qed
next
  case (2 c1 c2)
  let ?t1 = "byte_of c1" and ?t2 = "byte_of c2"
  let ?e1 = "enc (?t1 div 4)" and ?e2 = "enc ((?t1 mod 4) * 16 + ?t2 div 16)"
  let ?e3 = "enc ((?t2 mod 16) * 4)"
  note b = sextet_bounds[OF byte_of_less[of c1] byte_of_less[of c2] byte_of_less[of c2]]
  have d: "decode_table ?e1 = ?t1 div 4" "decode_table ?e2 = (?t1 mod 4) * 16 + ?t2 div 16"
          "decode_table ?e3 = (?t2 mod 16) * 4"
    using b by (simp_all add: decode_enc)
  have v: "decode_table ?e1 \<noteq> 100" "decode_table ?e2 \<noteq> 100" "decode_table ?e3 \<noteq> 100"
    unfolding d using b by simp_all
  have np: "?e1 \<noteq> padding_char" "?e2 \<noteq> padding_char" "?e3 \<noteq> padding_char"
    using b by (simp_all add: enc_not_padding)
  have temp: "decode_table ?e1 * 1024 + decode_table ?e2 * 16 + decode_table ?e3 div 4
              = ?t1 * 256 + ?t2"
    unfolding d by (rule tail1_value)
  have "from_base64 [?e1, ?e2, ?e3, padding_char] = Inr [c1, c2]"
    unfolding from_base64_def using v np
    by (simp add: Let_def temp tail1_chars byte_of_div_256 char_of_byte_of decode_tail_def)
  then show ?case by (simp add: Let_def)
next
  case (3 c1)
  let ?t1 = "byte_of c1"
  let ?e1 = "enc (?t1 div 4)" and ?e2 = "enc ((?t1 mod 4) * 16)"
  note b = sextet_bounds[OF byte_of_less[of c1] byte_of_less[of c1] byte_of_less[of c1]]
  have d: "decode_table ?e1 = ?t1 div 4" "decode_table ?e2 = (?t1 mod 4) * 16"
    using b by (simp_all add: decode_enc)
  have v: "decode_table ?e1 \<noteq> 100" "decode_table ?e2 \<noteq> 100"
    unfolding d using b by simp_all
  have np: "?e1 \<noteq> padding_char" "?e2 \<noteq> padding_char"
    using b by (simp_all add: enc_not_padding)
  have temp: "decode_table ?e1 * 4 + decode_table ?e2 div 16
              = (?t1 div 4) * 4 + ((?t1 mod 4) * 16) div 16"
    unfolding d by (rule refl)
  have "from_base64 [?e1, ?e2, padding_char, padding_char] = Inr [c1]"
    unfolding from_base64_def using v np
    by (simp add: Let_def temp tail2_char char_of_byte_of decode_tail_def)
  then show ?case by (simp add: Let_def)
next
  case 4
  show ?case by (simp add: from_base64_def)
qed

text \<open>
  Claim C2: for every string \<open>s\<close>, the empty one and those with non-ASCII bytes
  included, decoding the base64 encoding of \<open>s\<close> gives back \<open>s\<close>.
\<close>

theorem base64_round_trip: "from_base64 (to_base64 s) = Inr s"
  by (rule from_base64_to_base64)

theorem base64_round_trip_witness:
  "from_base64 (to_base64 [CHR ''2'', CHR 0xFF, CHR 0x00]) = Inr [CHR ''2'', CHR 0xFF, CHR 0x00]"
  using base64_round_trip [of "[CHR ''2'', CHR 0xFF, CHR 0x00]"] by simp

section \<open>Evaluating a run\<close>

text \<open>
  The documents are evaluated by rewriting. The lexer is run on one line of text at a
  time, with the rest of the text left open.
\<close>

lemmas lex_eval = lex.simps scan_string.simps scan_number_def int_part_def frac_part_def
  exp_part_def integer_token_def Let_def is_digit_def is_ws_def byte_of_def nat_of_digits_def
  digit_val_def utf8_head_def utf8_ranges_def unescape_def

lemmas double_eval = round_ratio_def round_scaled_def binade_def bitlen.simps Let_def
  double_of_int_def with_sign_def

lemmas stod_eval = stod_def strtod_round_def scaled_ratio_def scan_exponent_def exact_ratio_def
  is_space_def to_lower_def is_hex_def hex_val_def nat_of_hex_def is_digit_def nat_of_digits_def
  digit_val_def byte_of_def

lemma lex_line_open: \<open>lex (''{\<newline>'' @ rest) = TLBrace # lex rest\<close>
  by (simp add: lex_eval)

lemma lex_line_polynomial:
  \<open>lex (''  "polynomial": {\<newline>'' @ rest) = TString ''polynomial'' # TColon # TLBrace # lex rest\<close>
  by (simp add: lex_eval)

lemma lex_line_a:
  \<open>lex (''    "a": 2,\<newline>'' @ rest) = TString ''a'' # TColon # TInt 2 # TComma # lex rest\<close>
  by (simp add: lex_eval)

lemma lex_line_b:
  \<open>lex (''    "b": -7,\<newline>'' @ rest) = TString ''b'' # TColon # TInt (- 7) # TComma # lex rest\<close>
  by (simp add: lex_eval)

lemma lex_line_c_null:
  \<open>lex (''    "c": null,\<newline>'' @ rest) = TString ''c'' # TColon # TNull # TComma # lex rest\<close>
  by (simp add: lex_eval)

lemma lex_line_c_20:
  \<open>lex (''    "c": 20.0,\<newline>'' @ rest)
   = TString ''c'' # TColon # TFloat (Fin False 5629499534213120 (- 48)) # TComma # lex rest\<close>
  by (simp add: lex_eval decimal_value_def round_ratio_def binade_def bitlen.simps)

lemma lex_line_form:
  \<open>lex (''    "form": "ax^2 + bx + c = 0"\<newline>'' @ rest)
   = TString ''form'' # TColon # TString ''ax^2 + bx + c = 0'' # lex rest\<close>
  by (simp add: lex_eval)

lemma lex_line_close_comma: \<open>lex (''  },\<newline>'' @ rest) = TRBrace # TComma # lex rest\<close>
  by (simp add: lex_eval)

lemma lex_line_roots:
  \<open>lex (''  "roots_base64": {\<newline>'' @ rest) = TString ''roots_base64'' # TColon # TLBrace # lex rest\<close>
  by (simp add: lex_eval)

lemma lex_line_alpha:
  \<open>lex (''    "alpha": "Mg==",\<newline>'' @ rest)
   = TString ''alpha'' # TColon # TString ''Mg=='' # TComma # lex rest\<close>
  by (simp add: lex_eval)

lemma lex_line_alpha_alt:
  \<open>lex (''    "alpha": "Mw==",\<newline>'' @ rest)
   = TString ''alpha'' # TColon # TString ''Mw=='' # TComma # lex rest\<close>
  by (simp add: lex_eval)

lemma lex_line_beta:
  \<open>lex (''    "beta": "NQ=="\<newline>'' @ rest) = TString ''beta'' # TColon # TString ''NQ=='' # lex rest\<close>
  by (simp add: lex_eval)

lemma lex_line_close: \<open>lex (''  }\<newline>'' @ rest) = TRBrace # lex rest\<close>
  by (simp add: lex_eval)

lemma lex_line_end: \<open>lex (''}\<newline>'') = [TRBrace]\<close>
  by (simp add: lex_eval)

lemmas lex_lines = lex_line_open lex_line_polynomial lex_line_a lex_line_b lex_line_c_null
  lex_line_c_20 lex_line_form lex_line_close_comma lex_line_roots lex_line_alpha
  lex_line_alpha_alt lex_line_beta lex_line_close lex_line_end

lemma data_value:
  "data = JObject
     [(''polynomial'',
        JObject [(''a'', JInt 2), (''b'', JInt (- 7)), (''c'', JNull),
                 (''form'', JString ''ax^2 + bx + c = 0'')]),
      (''roots_base64'',
        JObject [(''alpha'', JString ''Mg==''), (''beta'', JString ''NQ=='')])]"
  by code_simp

lemma dump_data: "dump True 2 data = Inr (butlast first_text)"
  by code_simp

lemma first_text_lines:
  \<open>first_text = ''{\<newline>'' @ ''  "polynomial": {\<newline>'' @ ''    "a": 2,\<newline>'' @ ''    "b": -7,\<newline>''
     @ ''    "c": null,\<newline>'' @ ''    "form": "ax^2 + bx + c = 0"\<newline>'' @ ''  },\<newline>''
     @ ''  "roots_base64": {\<newline>'' @ ''    "alpha": "Mg==",\<newline>'' @ ''    "beta": "NQ=="\<newline>''
     @ ''  }\<newline>'' @ ''}\<newline>''\<close>
  by (simp add: first_text_def)



lemma lex_first: "lex first_text =
  [TLBrace, TString ''polynomial'', TColon, TLBrace,
     TString ''a'', TColon, TInt 2, TComma,
     TString ''b'', TColon, TInt (- 7), TComma,
     TString ''c'', TColon, TNull, TComma,
     TString ''form'', TColon, TString ''ax^2 + bx + c = 0'', TRBrace, TComma,
   TString ''roots_base64'', TColon, TLBrace,
     TString ''alpha'', TColon, TString ''Mg=='', TComma,
     TString ''beta'', TColon, TString ''NQ=='', TRBrace, TRBrace]"
  unfolding first_text_lines by (simp only: lex_lines)



lemma skip_bom_texts:
  "skip_bom first_text = first_text" "skip_bom second_text = second_text"
  "skip_bom alt_text = alt_text"
  by (simp_all add: skip_bom_def first_text_def second_text_def alt_text_def)

lemma parse_first: "parse first_text = Inr data"
  unfolding parse_def skip_bom_texts lex_first data_value
  by (simp add: is_finite_def byte_of_def)



lemma parse_empty: "parse [] = Inl ParseError"
  by (simp add: parse_def skip_bom_def lex.simps)

lemma digit_char_values:
  "digit_char 0 = CHR ''0''" "digit_char 1 = CHR ''1''" "digit_char 2 = CHR ''2''"
  "digit_char 3 = CHR ''3''" "digit_char 4 = CHR ''4''" "digit_char 5 = CHR ''5''"
  "digit_char 6 = CHR ''6''" "digit_char 7 = CHR ''7''" "digit_char 8 = CHR ''8''"
  "digit_char 9 = CHR ''9''"
  by (simp_all add: digit_char_def char_of_eq_iff)

lemma frac_digits_zero: "frac_digits k 0 = ''0''"
  by (simp add: frac_digits_def Let_def digits_of.simps digit_char_values)

lemma dump_float_20: "dump_float (Fin False 5629499534213120 (- 48)) = ''20.0''"
  by (simp add: frac_digits_zero Let_def digits_of.simps digit_char_values)

lemma dump_updated: "dump True 2 updated = Inr (butlast second_text)"
  unfolding updated_def dump_def
  by (simp add: dump_float_20 frac_digits_zero dump_int_def digits_of.simps digit_char_values
        dump_string_def dump_escaped_def escape_char_def byte_of_def indent_string_def
        second_text_def utf8_valid.simps utf8_head_def utf8_ranges_def)


lemma to_base64_2: "to_base64 ''2'' = ''Mg=='' " and to_base64_5: "to_base64 ''5'' = ''NQ==''"
  by (simp_all add: to_base64_def enc_def encode_table_def byte_of_def padding_char_def Let_def)

lemma decode_Mg: "from_base64 ''Mg=='' = Inr ''2''"
  using from_base64_to_base64 [of "''2''"] by (simp add: to_base64_2)

lemma decode_NQ: "from_base64 ''NQ=='' = Inr ''5''"
  using from_base64_to_base64 [of "''5''"] by (simp add: to_base64_5)


lemma double_of_int_values:
  "double_of_int 2 = Fin False 4503599627370496 (- 51)"
  "double_of_int (- 7) = Fin True 7881299347898368 (- 50)"
  by (simp_all add: double_eval)

lemma stod_2: "stod ''2'' = Inr (Fin False 4503599627370496 (- 51))"
  by (simp add: stod_eval double_eval)

lemma stod_5: "stod ''5'' = Inr (Fin False 5629499534213120 (- 50))"
  by (simp add: stod_eval double_eval)


lemma product_2_5:
  "dmul (Fin False 4503599627370496 (- 51)) (Fin False 5629499534213120 (- 50))
   = Fin False 5629499534213120 (- 49)"
  by (simp add: double_eval)

lemma product_2_10:
  "dmul (Fin False 4503599627370496 (- 51)) (Fin False 5629499534213120 (- 49))
   = Fin False 5629499534213120 (- 48)"
  by (simp add: double_eval)

lemma sum_2_5:
  "dadd (Fin False 4503599627370496 (- 51)) (Fin False 5629499534213120 (- 50))
   = Fin False 7881299347898368 (- 50)"
  by (simp add: double_eval)

lemma quotient_7_2:
  "ddiv (dneg (Fin True 7881299347898368 (- 50))) (Fin False 4503599627370496 (- 51))
   = Fin False 7881299347898368 (- 51)"
  by (simp add: double_eval)

lemma alt_arith:
  "dmul (Fin False 6755399441055744 (- 51)) (Fin False 5629499534213120 (- 50))
   = Fin False 8444249301319680 (- 49)"
  "dmul (Fin False 4503599627370496 (- 51)) (Fin False 8444249301319680 (- 49))
   = Fin False 8444249301319680 (- 48)"
  "dadd (Fin False 6755399441055744 (- 51)) (Fin False 5629499534213120 (- 50))
   = Fin False 4503599627370496 (- 49)"
  by (simp_all add: double_eval)

lemma exact_values:
  "exact_ratio 4503599627370496 (- 51) 2 1" "exact_ratio 5629499534213120 (- 50) 5 1"
  "exact_ratio 7881299347898368 (- 50) 7 1" "exact_ratio 7881299347898368 (- 51) 7 2"
  "exact_ratio 5629499534213120 (- 49) 10 1" "exact_ratio 5629499534213120 (- 48) 20 1"
  "exact_ratio 8444249301319680 (- 48) 30 1"
  by (simp_all add: exact_ratio_def)

lemma int32_wrap_small: "int32_wrap 2 = 2" "int32_wrap (- 7) = - 7"
  by (simp_all add: int32_wrap_def)

lemma update_first: "update_document first_text = Inr (updated, butlast (tl printed))"
  unfolding update_document_def parse_first data_value
  by (simp add: bind_def int32_wrap_small decode_Mg decode_NQ stod_2 stod_5 double_of_int_values
        double_eval updated_def printed_def byte_of_def)


lemma update_parse_error: "parse txt = Inl e \<Longrightarrow> update_document txt = Inl e"
  by (simp add: update_document_def bind_def)

lemma write_json_valid:
  "json_valid j \<Longrightarrow>
   write_json j f
   = Inr (if writable f then f\<lparr>content := Some (dump_value True 2 0 j @ [CHR 0x0A])\<rparr> else f)"
  by (simp add: write_json_def bind_def dump_def)

lemma write_first:
  "write_json data f = Inr (if writable f then f\<lparr>content := Some first_text\<rparr> else f)"
proof -
  have "butlast first_text @ [CHR 0x0A] = first_text" by (simp add: first_text_def)
  then show ?thesis by (simp add: write_json_def bind_def dump_data)
qed

lemma write_second:
  "write_json updated f = Inr (if writable f then f\<lparr>content := Some second_text\<rparr> else f)"
proof -
  have "butlast second_text @ [CHR 0x0A] = second_text" by (simp add: second_text_def)
  then show ?thesis by (simp add: write_json_def bind_def dump_updated)
qed

lemma printed_split: "JsonWritten # butlast (tl printed) @ [UpdatedWritten] = printed"
  by (simp add: printed_def)


lemma main_full_run:
  assumes "writable f" and "readable f"
  shows "main f = (Exit0 printed, f\<lparr>content := Some second_text\<rparr>)"
  using assms
  by (simp add: main_def write_first write_second read_file_def update_first printed_split)


lemma main_unwritable_first:
  "main \<lparr>content = Some first_text, writable = False, readable = True\<rparr>
   = (Exit0 printed, \<lparr>content = Some first_text, writable = False, readable = True\<rparr>)"
  by (simp add: main_def write_first write_second read_file_def update_first printed_split)



lemma fields_first:
  "field first_text ''polynomial'' ''a'' = Inr (JInt 2)"
  "field first_text ''polynomial'' ''b'' = Inr (JInt (- 7))"
  "field first_text ''polynomial'' ''c'' = Inr JNull"
  "field first_text ''polynomial'' ''form'' = Inr (JString ''ax^2 + bx + c = 0'')"
  "field first_text ''roots_base64'' ''alpha'' = Inr (JString ''Mg=='')"
  "field first_text ''roots_base64'' ''beta'' = Inr (JString ''NQ=='')"
  by (simp_all add: field_def parse_first data_value bind_def)



section \<open>Writing and reading back a record\<close>

text \<open>
  What the lexer reads from the text the serializer writes for an integer, a binary64
  and a string of plain characters, and from there what the parser makes of the text of
  a record. A decimal text that a binary64 value equals exactly is rounded to that
  value (\<open>round_exact\<close>).
\<close>

lemma byte_of_char_of: "n < 256 \<Longrightarrow> byte_of (char_of n) = n"
  by (simp add: byte_of_def)

lemma digit_char_digit: "d < 10 \<Longrightarrow> is_digit (digit_char d)"
  by (simp add: is_digit_def digit_char_def byte_of_char_of)

lemma digit_val_digit_char: "d < 10 \<Longrightarrow> digit_val (digit_char d) = d"
  by (simp add: digit_val_def digit_char_def byte_of_char_of)

lemma digit_char_zero_iff: "d < 10 \<Longrightarrow> digit_char d = CHR ''0'' \<longleftrightarrow> d = 0"
proof
  assume d: "d < 10" and e: "digit_char d = CHR ''0''"
  from e have "byte_of (digit_char d) = byte_of (CHR ''0'')" by simp
  then show "d = 0" using d by (simp add: digit_char_def byte_of_char_of) (simp add: byte_of_def)
next
  assume "d = 0"
  then show "digit_char d = CHR ''0''" by (simp add: digit_char_def char_of_eq_iff)
qed

lemma digits_of_digits: "c \<in> set (digits_of n) \<Longrightarrow> is_digit c"
proof (induction n arbitrary: c rule: digits_of.induct)
  case (1 n)
  show ?case
  proof (cases "n < 10")
    case True
    with "1.prems" show ?thesis by (simp add: digits_of.simps[of n] digit_char_digit)
  next
    case False
    with "1.prems" "1.IH" show ?thesis
      by (auto simp: digits_of.simps[of n] digit_char_digit)
  qed
qed

lemma nat_of_digits_snoc: "nat_of_digits (xs @ [c]) = 10 * nat_of_digits xs + digit_val c"
  by (simp add: nat_of_digits_def)

lemma nat_of_digits_digits_of: "nat_of_digits (digits_of n) = n"
proof (induction n rule: digits_of.induct)
  case (1 n)
  show ?case
  proof (cases "n < 10")
    case True
    then show ?thesis by (simp add: digits_of.simps[of n] nat_of_digits_def digit_val_digit_char)
  next
    case False
    then show ?thesis
      using "1.IH" by (simp add: digits_of.simps[of n] nat_of_digits_snoc digit_val_digit_char)
  qed
qed

lemma digits_of_nonempty: "digits_of n \<noteq> []"
  by (subst digits_of.simps) simp

lemma hd_digits_of_zero: "hd (digits_of n) = CHR ''0'' \<longleftrightarrow> n = 0"
proof (induction n rule: digits_of.induct)
  case (1 n)
  show ?case
  proof (cases "n < 10")
    case True
    then show ?thesis by (simp add: digits_of.simps[of n] digit_char_zero_iff)
  next
    case False
    then have "n div 10 \<noteq> 0" by simp
    with False "1.IH" show ?thesis
      by (simp add: digits_of.simps[of n] digits_of_nonempty)
  qed
qed

lemma takeWhile_digits_of:
  "\<not> is_digit c \<Longrightarrow> takeWhile is_digit (digits_of n @ c # rest) = digits_of n"
  by (simp add: takeWhile_append2 digits_of_digits)

lemma takeWhile_digits_of_end: "takeWhile is_digit (digits_of n) = digits_of n"
  by (simp add: takeWhile_eq_all_conv digits_of_digits)

lemma digits_of_Cons: "\<exists>d ds. digits_of n = d # ds \<and> is_digit d \<and> (d = CHR ''0'' \<longleftrightarrow> n = 0)"
proof (cases "digits_of n")
  case Nil
  then show ?thesis by (simp add: digits_of_nonempty)
next
  case (Cons d ds)
  then have "is_digit d" using digits_of_digits[of d n] by simp
  moreover have "d = CHR ''0'' \<longleftrightarrow> n = 0" using hd_digits_of_zero[of n] Cons by simp
  ultimately show ?thesis using Cons by blast
qed

lemma not_digit_chars: "\<not> is_digit (CHR ''-'')" "\<not> is_digit (CHR ''.'')"
  by (simp_all add: is_digit_def byte_of_def)

lemma takeWhile_digits_end:
  "number_end rest \<Longrightarrow> takeWhile is_digit (digits_of n @ rest) = digits_of n"
  by (cases rest) (simp_all add: number_end_def takeWhile_digits_of takeWhile_digits_of_end)

lemma digits_of_0: "digits_of 0 = ''0''"
  by (simp add: digits_of.simps[of 0] digit_char_def char_of_eq_iff)

lemma int_part_digits_of:
  assumes "number_end rest"
  shows "int_part (digits_of n @ rest) = digits_of n"
proof -
  obtain d ds where ds: "digits_of n = d # ds" "is_digit d" "d = CHR ''0'' \<longleftrightarrow> n = 0"
    using digits_of_Cons by blast
  show ?thesis
  proof (cases "n = 0")
    case True
    then show ?thesis by (simp add: int_part_def digits_of_0)
  next
    case False
    with ds have "d \<noteq> CHR ''0''" by simp
    then have "int_part (d # ds @ rest) = takeWhile is_digit (d # ds @ rest)"
      by (simp add: int_part_def)
    then show ?thesis using takeWhile_digits_end[OF assms, of n] ds(1) by simp
  qed
qed

lemma frac_part_end: "number_end rest \<Longrightarrow> frac_part rest = None"
  by (cases rest) (simp_all add: frac_part_def number_end_def)

lemma exp_part_end: "number_end rest \<Longrightarrow> exp_part rest = None"
  by (cases rest) (simp_all add: exp_part_def number_end_def)

lemma take1_digits_not_minus: "take (Suc 0) (digits_of n @ rest) \<noteq> ''-''"
proof -
  obtain d ds where ds: "digits_of n = d # ds" "is_digit d"
    using digits_of_Cons by blast
  then have "d \<noteq> CHR ''-''" using not_digit_chars by metis
  then show ?thesis using ds(1) by simp
qed

lemma drop_length_append: "drop (length xs) (xs @ ys) = ys"
  by simp

lemma scan_unsigned:
  assumes "number_end rest"
  shows "scan_number (digits_of n @ rest)
         = Some (integer_token False n, length (digits_of n))"
  unfolding scan_number_def
  by (simp add: Let_def take1_digits_not_minus int_part_digits_of[OF assms]
        frac_part_end[OF assms] exp_part_end[OF assms] digits_of_nonempty
        nat_of_digits_digits_of drop_length_append del: take_append drop_append)

lemma scan_negative:
  assumes "number_end rest"
  shows "scan_number (CHR ''-'' # digits_of n @ rest)
         = Some (integer_token True n, Suc (length (digits_of n)))"
  unfolding scan_number_def
  by (simp add: Let_def int_part_digits_of[OF assms]
        frac_part_end[OF assms] exp_part_end[OF assms] digits_of_nonempty
        nat_of_digits_digits_of)

lemma scan_dump_int:
  assumes "number_end rest" and "- (2 ^ 63) \<le> i" and "i < 2 ^ 64"
  shows "scan_number (dump_int i @ rest) = Some (TInt i, length (dump_int i))"
proof (cases "i < 0")
  case True
  then have "nat (- i) \<le> 2 ^ 63" using assms(2) by simp
  then show ?thesis
    using True by (simp add: dump_int_def scan_negative[OF assms(1)] integer_token_def)
next
  case False
  then have "nat i < 2 ^ 64" using assms(3) by simp
  then show ?thesis
    using False by (simp add: dump_int_def scan_unsigned[OF assms(1)] integer_token_def)
qed

lemma utf8_head_plain: "plain_char c \<Longrightarrow> utf8_head (c # cs) = 1"
  by (simp add: utf8_head_def utf8_ranges_def plain_char_def)

lemma scan_string_plain:
  "\<forall>c\<in>set s. plain_char c \<Longrightarrow> scan_string (s @ CHR 0x22 # rest) = Some (s, Suc (length s))"
proof (induction s)
  case Nil
  show ?case by (simp add: scan_string.simps)
next
  case (Cons c s)
  then have p: "plain_char c" and ih: "scan_string (s @ CHR 0x22 # rest) = Some (s, Suc (length s))"
    by simp_all
  from p have "c \<noteq> CHR 0x22" "c \<noteq> CHR 0x5C" "\<not> byte_of c < 0x20"
    by (simp_all add: plain_char_def)
  then show ?case
    by (simp add: scan_string.simps(2)[of c] utf8_head_plain[OF p] ih)
qed

lemma utf8_valid_plain: "\<forall>c\<in>set s. plain_char c \<Longrightarrow> utf8_valid s"
proof (induction s)
  case Nil
  show ?case by (simp add: utf8_valid.simps)
next
  case (Cons c s)
  then show ?case
    by (subst utf8_valid.simps) (simp add: utf8_head_plain)
qed

lemma byte_of_eq_iff: "byte_of c = byte_of d \<longleftrightarrow> c = d"
  by (simp add: byte_of_def)

lemma escape_char_plain: "plain_char c \<Longrightarrow> escape_char c = [c]"
proof -
  assume p: "plain_char c"
  then have "byte_of c \<noteq> byte_of (CHR 0x22)" "byte_of c \<noteq> byte_of (CHR 0x5C)"
    by (simp_all add: plain_char_def byte_of_eq_iff)
  then have "byte_of c \<noteq> 0x22" "byte_of c \<noteq> 0x5C" by (simp_all add: byte_of_def)
  with p show ?thesis by (simp add: escape_char_def plain_char_def Let_def)
qed

lemma dump_escaped_plain: "\<forall>c\<in>set s. plain_char c \<Longrightarrow> dump_escaped s = s"
  by (induction s) (simp_all add: dump_escaped_def escape_char_plain)

lemma plain_enc: "i < 64 \<Longrightarrow> plain_char (enc i)"
proof -
  have "\<forall>i<64. plain_char (enc i)"
    by (simp add: All_less_Suc numeral_eq_Suc enc_def encode_table_def plain_char_def byte_of_def)
  then show "i < 64 \<Longrightarrow> plain_char (enc i)" by blast
qed

lemma plain_padding: "plain_char padding_char"
  by (simp add: plain_char_def padding_char_def byte_of_def)

lemma plain_to_base64: "c \<in> set (to_base64 s) \<Longrightarrow> plain_char c"
  unfolding to_base64_def
proof (induction s arbitrary: c rule: encode_into.induct)
  case (1 c1 c2 c3 cs)
  note b = sextet_bounds[OF byte_of_less[of c1] byte_of_less[of c2] byte_of_less[of c3]]
  from "1.prems" "1.IH" b show ?case
    by (auto simp: Let_def plain_enc)
next
  case (2 c1 c2)
  note b = sextet_bounds[OF byte_of_less[of c1] byte_of_less[of c2] byte_of_less[of c2]]
  from "2.prems" b show ?case
    by (auto simp: Let_def plain_enc plain_padding)
next
  case (3 c1)
  note b = sextet_bounds[OF byte_of_less[of c1] byte_of_less[of c1] byte_of_less[of c1]]
  from "3.prems" b show ?case
    by (auto simp: Let_def plain_enc plain_padding)
next
  case 4
  then show ?case by simp
qed

lemma lex_string_plain:
  assumes "\<forall>c\<in>set s. plain_char c"
  shows "lex (dump_string s @ rest) = TString s # lex rest"
proof -
  have "dump_string s @ rest = CHR 0x22 # (s @ CHR 0x22 # rest)"
    by (simp add: dump_string_def dump_escaped_plain[OF assms])
  then show ?thesis
    by (simp add: lex.simps(2)[of "CHR 0x22"] is_ws_def scan_string_plain[OF assms])
qed

lemma binade_ge_pow2:
  "binade num den =
     (if ge_pow2 num den (int (bitlen num) - int (bitlen den))
      then int (bitlen num) - int (bitlen den)
      else int (bitlen num) - int (bitlen den) - 1)"
  by (simp add: binade_def ge_pow2_def Let_def)

lemma ge_pow2_shift:
  assumes "- int B \<le> e"
  shows "ge_pow2 num den e \<longleftrightarrow> den * 2 ^ nat (e + int B) \<le> num * 2 ^ B"
proof (cases "0 \<le> e")
  case True
  then have "nat (e + int B) = nat e + B" by simp
  then show ?thesis using True by (simp add: ge_pow2_def power_add)
next
  case False
  define k where "k = nat (- e)"
  have k: "k \<le> B" "e = - int k" using False assms by (simp_all add: k_def)
  then have n: "nat (e + int B) = B - k" by simp
  have "2 ^ B = (2::nat) ^ (B - k) * 2 ^ k" using k(1) by (simp flip: power_add)
  then have "den * 2 ^ (B - k) \<le> num * 2 ^ B \<longleftrightarrow> den * 2 ^ (B - k) \<le> (num * 2 ^ k) * 2 ^ (B - k)"
    by (simp add: mult.assoc mult.commute)
  also have "\<dots> \<longleftrightarrow> den \<le> num * 2 ^ k" by simp
  finally show ?thesis using False by (simp add: ge_pow2_def n k_def)
qed

lemma ge_pow2_mono:
  assumes "ge_pow2 num den e" and "e' \<le> e"
  shows "ge_pow2 num den e'"
proof -
  define B where "B = nat (- e') + nat (- e)"
  have b: "- int B \<le> e" "- int B \<le> e'" by (simp_all add: B_def)
  have "nat (e' + int B) \<le> nat (e + int B)" using assms(2) by simp
  then have "(2::nat) ^ nat (e' + int B) \<le> 2 ^ nat (e + int B)"
    by (simp add: power_increasing)
  then have "den * 2 ^ nat (e' + int B) \<le> den * 2 ^ nat (e + int B)" by simp
  also have "\<dots> \<le> num * 2 ^ B" using assms(1) ge_pow2_shift[OF b(1)] by simp
  finally show ?thesis using ge_pow2_shift[OF b(2)] by simp
qed

lemma bitlen_bounds: "0 < n \<Longrightarrow> 2 ^ (bitlen n - 1) \<le> n \<and> n < 2 ^ bitlen n"
proof (induction n rule: bitlen.induct)
  case (1 n)
  show ?case
  proof (cases "n div 2 = 0")
    case True
    with "1.prems" have "n = 1" by (simp add: div_eq_0_iff) 
    then show ?thesis by (simp add: bitlen.simps[of "Suc 0"] bitlen.simps[of 0])
  next
    case False
    then have "0 < n div 2" by simp
    with "1.IH" "1.prems" have ih: "2 ^ (bitlen (n div 2) - 1) \<le> n div 2" "n div 2 < 2 ^ bitlen (n div 2)"
      by simp_all
    have b: "bitlen n = Suc (bitlen (n div 2))" using "1.prems" by (simp add: bitlen.simps[of n])
    have pos: "0 < bitlen (n div 2)" using False by (simp add: bitlen.simps[of "n div 2"])
    have "2 ^ (bitlen n - 1) = 2 * 2 ^ (bitlen (n div 2) - 1)"
      using pos b by (cases "bitlen (n div 2)") simp_all
    also have "\<dots> \<le> 2 * (n div 2)" using ih(1) by simp
    also have "\<dots> \<le> n" by simp
    finally have lo: "2 ^ (bitlen n - 1) \<le> n" .
    have "n < 2 * (n div 2) + 2" by presburger
    also have "\<dots> \<le> 2 * 2 ^ bitlen (n div 2)" using ih(2) by simp
    finally have hi: "n < 2 ^ bitlen n" using b by simp
    from lo hi show ?thesis by simp
  qed
qed

lemma bitlen_pos: "0 < n \<Longrightarrow> 0 < bitlen n"
  by (simp add: bitlen.simps[of n])

lemma binade_spec:
  assumes "0 < num" and "0 < den"
  shows "ge_pow2 num den (binade num den) \<and> \<not> ge_pow2 num den (binade num den + 1)"
proof -
  define bn where "bn = bitlen num"
  define bd where "bd = bitlen den"
  define e0 where "e0 = int bn - int bd"
  have bn: "2 ^ (bn - 1) \<le> num" "num < 2 ^ bn" "0 < bn"
    using bitlen_bounds[OF assms(1)] bitlen_pos[OF assms(1)] by (simp_all add: bn_def)
  have bd: "2 ^ (bd - 1) \<le> den" "den < 2 ^ bd" "0 < bd"
    using bitlen_bounds[OF assms(2)] bitlen_pos[OF assms(2)] by (simp_all add: bd_def)
  define B where "B = bd + 1"
  have sh: "- int B \<le> e0 - 1" "- int B \<le> e0" "- int B \<le> e0 + 1"
    by (simp_all add: B_def e0_def)
  have lo: "ge_pow2 num den (e0 - 1)"
  proof -
    have n: "nat (e0 - 1 + int B) = bn" by (simp add: e0_def B_def)
    have "den * 2 ^ bn \<le> 2 ^ bd * 2 ^ bn" using bd(2) by simp
    also have "\<dots> = 2 ^ (bn - 1) * 2 ^ B"
    proof -
      have "bd + bn = (bn - 1) + B" using bn(3) by (simp add: B_def)
      then show ?thesis by (simp only: flip: power_add)
    qed
    also have "\<dots> \<le> num * 2 ^ B" using bn(1) by simp
    finally show ?thesis using ge_pow2_shift[OF sh(1), of num den] n by simp
  qed
  have hi: "\<not> ge_pow2 num den (e0 + 1)"
  proof -
    have n: "nat (e0 + 1 + int B) = bn + 2" by (simp add: e0_def B_def)
    have "num * 2 ^ B < 2 ^ bn * 2 ^ B" using bn(2) by simp
    also have "\<dots> = 2 ^ (bd - 1) * 2 ^ (bn + 2)"
    proof -
      have "bn + B = (bd - 1) + (bn + 2)" using bd(3) by (simp add: B_def)
      then show ?thesis by (simp only: flip: power_add)
    qed
    also have "\<dots> \<le> den * 2 ^ (bn + 2)" using bd(1) by simp
    finally show ?thesis using ge_pow2_shift[OF sh(3), of num den] n by simp
  qed
  show ?thesis
  proof (cases "ge_pow2 num den e0")
    case True
    then have "binade num den = e0" by (simp add: binade_ge_pow2 e0_def bn_def bd_def)
    with True hi show ?thesis by simp
  next
    case False
    then have "binade num den = e0 - 1" by (simp add: binade_ge_pow2 e0_def bn_def bd_def)
    with False lo show ?thesis by simp
  qed
qed

lemma binade_unique:
  assumes "0 < num" and "0 < den"
      and "ge_pow2 num den e" and "\<not> ge_pow2 num den (e + 1)"
  shows "binade num den = e"
proof -
  note s = binade_spec[OF assms(1,2)]
  have "\<not> binade num den < e"
  proof
    assume "binade num den < e"
    then have "binade num den + 1 \<le> e" by simp
    from ge_pow2_mono[OF assms(3) this] s show False by simp
  qed
  moreover have "\<not> e < binade num den"
  proof
    assume "e < binade num den"
    then have "e + 1 \<le> binade num den" by simp
    from ge_pow2_mono[OF conjunct1[OF s] this] assms(4) show False by simp
  qed
  ultimately show ?thesis by simp
qed

lemma exact_ratio_shift:
  assumes "- int B \<le> q"
  shows "exact_ratio m q num den \<longleftrightarrow> m * den * 2 ^ nat (q + int B) = num * 2 ^ B"
proof (cases "0 \<le> q")
  case True
  then have "nat (q + int B) = nat q + B" by simp
  then show ?thesis using True by (auto simp add: exact_ratio_def power_add mult_ac)
next
  case False
  define k where "k = nat (- q)"
  have k: "k \<le> B" "q = - int k" using False assms by (simp_all add: k_def)
  then have n: "nat (q + int B) = B - k" by simp
  have "2 ^ B = (2::nat) ^ (B - k) * 2 ^ k" using k(1) by (simp flip: power_add)
  then have "m * den * 2 ^ (B - k) = num * 2 ^ B \<longleftrightarrow> (m * den) * 2 ^ (B - k) = (num * 2 ^ k) * 2 ^ (B - k)"
    by (simp add: mult.assoc mult.commute)
  also have "\<dots> \<longleftrightarrow> m * den = num * 2 ^ k" by simp
  finally show ?thesis using False by (simp add: exact_ratio_def n k_def)
qed

lemma exact_binade:
  assumes "is_double (Fin s m q)" and "exact_ratio m q num den" and "0 < den" and "0 < m"
  shows "max (binade num den - 52) (- 1074) = q"
proof -
  have d: "m < 2 ^ 53" "- 1074 \<le> q" "q = - 1074 \<or> 2 ^ 52 \<le> m"
    using assms(1) by (simp_all add: is_double_def)
  have b: "- int 1074 \<le> q" "- int 1074 \<le> q + 52" "- int 1074 \<le> q + 52 + 1"
    using d(2) by simp_all
  define P where "P = den * 2 ^ nat (q + 1074)"
  have P: "0 < P" using assms(3) by (simp add: P_def)
  have ex: "num * 2 ^ 1074 = m * P"
    using exact_ratio_shift[OF b(1), of m num den] assms(2) by (simp add: P_def mult_ac)
  have num: "0 < num" using ex P assms(4) by (cases "num = 0") simp_all
  have n52: "nat (q + 52 + int 1074) = nat (q + 1074) + 52" using d(2) by simp
  have n53: "nat (q + 52 + 1 + int 1074) = nat (q + 1074) + 53" using d(2) by simp
  have g52: "ge_pow2 num den (q + 52) \<longleftrightarrow> 2 ^ 52 \<le> m"
  proof -
    have "ge_pow2 num den (q + 52) \<longleftrightarrow> P * 2 ^ 52 \<le> m * P"
      using ge_pow2_shift[OF b(2), of num den] by (simp only: n52 power_add ex P_def mult.assoc)
    also have "\<dots> \<longleftrightarrow> 2 ^ 52 \<le> m" using P by (simp add: mult.commute)
    finally show ?thesis .
  qed
  have g53: "ge_pow2 num den (q + 52 + 1) \<longleftrightarrow> 2 ^ 53 \<le> m"
  proof -
    have "ge_pow2 num den (q + 52 + 1) \<longleftrightarrow> P * 2 ^ 53 \<le> m * P"
      using ge_pow2_shift[OF b(3), of num den] by (simp only: n53 power_add ex P_def mult.assoc)
    also have "\<dots> \<longleftrightarrow> 2 ^ 53 \<le> m" using P by (simp add: mult.commute)
    finally show ?thesis .
  qed
  show ?thesis
  proof (cases "2 ^ 52 \<le> m")
    case True
    have "binade num den = q + 52"
      using binade_unique[OF num assms(3), of "q + 52"] g52 g53 True d(1) by simp
    then show ?thesis using d(2) by simp
  next
    case False
    then have q: "q = - 1074" using d(3) by simp
    have "binade num den < q + 52"
    proof (rule ccontr)
      assume "\<not> binade num den < q + 52"
      then have "q + 52 \<le> binade num den" by simp
      from ge_pow2_mono[OF conjunct1[OF binade_spec[OF num assms(3)]] this] g52 False
      show False by simp
    qed
    then show ?thesis using q by simp
  qed
qed

lemma round_exact:
  assumes "is_double (Fin s m q)" and "exact_ratio m q num den" and "0 < den"
  shows "round_ratio s num den = Fin s m q"
proof (cases "m = 0")
  case True
  then have "num = 0" using assms(2,3) by (simp add: exact_ratio_def split: if_splits)
  moreover have "q = - 1074" using assms(1) True by (simp add: is_double_def)
  ultimately show ?thesis using True by (simp add: round_ratio_def)
next
  case False
  then have m: "0 < m" by simp
  have d: "m < 2 ^ 53" "q \<le> 971" using assms(1) by (simp_all add: is_double_def)
  have num: "num \<noteq> 0"
  proof
    assume "num = 0"
    then show False using assms(2,3) m by (simp add: exact_ratio_def split: if_splits)
  qed
  note e = exact_binade[OF assms m]
  define N where "N = (if q < 0 then num * 2 ^ nat (- q) else num)"
  define D where "D = (if q < 0 then den else den * 2 ^ nat q)"
  have D: "0 < D" using assms(3) by (simp add: D_def)
  have "N = m * D" using assms(2) by (auto simp add: N_def D_def exact_ratio_def mult_ac)
  then have dm: "N div D = m" "N mod D = 0" using D by simp_all
  show ?thesis
    unfolding round_ratio_def Let_def e
    using num d D dm by (simp add: N_def[symmetric] D_def[symmetric])
qed

lemma nat_of_digits_Nil: "nat_of_digits [] = 0"
  by (simp add: nat_of_digits_def)

lemma nat_of_digits_append:
  "nat_of_digits (xs @ ys) = nat_of_digits xs * 10 ^ length ys + nat_of_digits ys"
proof (induction ys rule: rev_induct)
  case Nil
  show ?case by (simp add: nat_of_digits_Nil)
next
  case (snoc y ys)
  have "nat_of_digits (xs @ ys @ [y]) = 10 * nat_of_digits (xs @ ys) + digit_val y"
    using nat_of_digits_snoc[of "xs @ ys" y] by simp
  then show ?case using snoc by (simp add: nat_of_digits_snoc algebra_simps)
qed

lemma digit_val_zero: "digit_val (CHR ''0'') = 0"
  by (simp add: digit_val_def byte_of_def)

lemma is_digit_zero: "is_digit (CHR ''0'')"
  by (simp add: is_digit_def byte_of_def)

lemma nat_of_digits_zeros: "nat_of_digits (replicate j (CHR ''0'')) = 0"
proof (induction j)
  case 0
  show ?case by (simp add: nat_of_digits_Nil)
next
  case (Suc j)
  have "replicate (Suc j) (CHR ''0'') = replicate j (CHR ''0'') @ [CHR ''0'']"
    by (simp add: replicate_append_same)
  then show ?case using Suc by (simp only: nat_of_digits_snoc digit_val_zero)
qed

lemma length_digits_of: "n < 10 ^ k \<Longrightarrow> 0 < k \<Longrightarrow> length (digits_of n) \<le> k"
proof (induction n arbitrary: k rule: digits_of.induct)
  case (1 n)
  show ?case
  proof (cases "n < 10")
    case True
    then show ?thesis using "1.prems" by (simp add: digits_of.simps[of n])
  next
    case False
    obtain j where k: "k = Suc j" using "1.prems"(2) by (cases k) simp_all
    have "j \<noteq> 0" using False "1.prems"(1) k by (cases j) simp_all
    moreover have "n div 10 < 10 ^ j" using "1.prems"(1) k by (simp add: less_mult_imp_div_less mult.commute)
    ultimately have "length (digits_of (n div 10)) \<le> j" using "1.IH"[OF False, of j] by simp
    then show ?thesis using False k by (simp add: digits_of.simps[of n])
  qed
qed

lemma strip_zeros:
  "\<exists>j. xs = rev (dropWhile (\<lambda>c. c = CHR ''0'') (rev xs)) @ replicate j (CHR ''0'')"
proof -
  define P where "P = (\<lambda>c. c = CHR ''0'')"
  have t: "takeWhile P ys = replicate (length (takeWhile P ys)) (CHR ''0'')" for ys
    by (induction ys) (simp_all add: P_def)
  have "rev xs = takeWhile P (rev xs) @ dropWhile P (rev xs)" by simp
  then have "xs = rev (dropWhile P (rev xs)) @ rev (takeWhile P (rev xs))"
    by (metis rev_append rev_rev_ident)
  also have "rev (takeWhile P (rev xs)) = replicate (length (takeWhile P (rev xs))) (CHR ''0'')"
    using t[of "rev xs"] by (metis rev_replicate)
  finally show ?thesis unfolding P_def by blast
qed

lemma frac_digits_spec:
  assumes "f < 10 ^ k" and "0 < k"
  shows "frac_digits k f \<noteq> [] \<and> (\<forall>c\<in>set (frac_digits k f). is_digit c)
         \<and> length (frac_digits k f) \<le> k
         \<and> nat_of_digits (frac_digits k f) * 10 ^ (k - length (frac_digits k f)) = f"
proof -
  define ds where "ds = digits_of f"
  define padded where "padded = replicate (k - length ds) (CHR ''0'') @ ds"
  define stripped where "stripped = rev (dropWhile (\<lambda>c. c = CHR ''0'') (rev padded))"
  have fd: "frac_digits k f = (if stripped = [] then ''0'' else stripped)"
    unfolding stripped_def padded_def ds_def frac_digits_def Let_def ..
  have len_ds: "length ds \<le> k" using length_digits_of[OF assms] by (simp add: ds_def)
  then have len_p: "length padded = k" by (simp add: padded_def)
  have dig_p: "\<forall>c\<in>set padded. is_digit c"
    by (auto simp add: padded_def ds_def digits_of_digits is_digit_zero)
  have val_p: "nat_of_digits padded = f"
    by (simp add: padded_def nat_of_digits_append nat_of_digits_zeros ds_def nat_of_digits_digits_of)
  obtain j where j: "padded = stripped @ replicate j (CHR ''0'')"
    using strip_zeros[of padded] by (auto simp add: stripped_def)
  have len_s: "length stripped + j = k" using j len_p by (metis length_append length_replicate)
  have dig_s: "\<forall>c\<in>set stripped. is_digit c" using dig_p j by (metis Un_iff set_append)
  have val_s: "nat_of_digits stripped * 10 ^ j = f"
    using val_p j by (simp add: nat_of_digits_append nat_of_digits_zeros)
  show ?thesis
  proof (cases "stripped = []")
    case True
    then have "f = 0" using val_s by (simp add: nat_of_digits_Nil)
    then show ?thesis using True fd assms(2)
      by (simp add: is_digit_zero nat_of_digits_def digit_val_zero)
  next
    case False
    have "k - length stripped = j" using len_s by simp
    then show ?thesis using False fd dig_s val_s len_s by simp
  qed
qed

lemma takeWhile_digits:
  "\<forall>c\<in>set ds. is_digit c \<Longrightarrow> digit_end rest \<Longrightarrow> takeWhile is_digit (ds @ rest) = ds"
  by (cases rest) (simp_all add: digit_end_def takeWhile_append2 takeWhile_eq_all_conv)

lemma number_end_digit_end: "number_end rest \<Longrightarrow> digit_end rest"
  by (cases rest) (simp_all add: number_end_def digit_end_def)

lemma int_part_digits:
  assumes "digit_end rest"
  shows "int_part (digits_of n @ rest) = digits_of n"
proof -
  obtain d ds where ds: "digits_of n = d # ds" "is_digit d" "d = CHR ''0'' \<longleftrightarrow> n = 0"
    using digits_of_Cons by blast
  show ?thesis
  proof (cases "n = 0")
    case True
    then show ?thesis by (simp add: int_part_def digits_of_0)
  next
    case False
    with ds have "d \<noteq> CHR ''0''" by simp
    then have "int_part (digits_of n @ rest) = takeWhile is_digit (digits_of n @ rest)"
      by (simp add: int_part_def ds(1))
    moreover have "takeWhile is_digit (digits_of n @ rest) = digits_of n"
      using takeWhile_digits[OF _ assms, of "digits_of n"] digits_of_digits by blast
    ultimately show ?thesis by (simp only:)
  qed
qed

lemma frac_part_digits:
  assumes "\<forall>c\<in>set fs. is_digit c" and "digit_end rest"
  shows "frac_part (CHR ''.'' # fs @ rest) = Some fs"
  by (simp add: frac_part_def takeWhile_digits[OF assms])

lemma scan_decimal_unsigned:
  assumes "number_end rest" and "fs \<noteq> []" and "\<forall>c\<in>set fs. is_digit c"
  shows "scan_number (digits_of n @ CHR ''.'' # fs @ rest)
         = Some (TFloat (decimal_value False (n * 10 ^ length fs + nat_of_digits fs) (- int (length fs))),
                 length (digits_of n) + Suc (length fs))"
proof -
  have de: "digit_end (CHR ''.'' # fs @ rest)" by (simp add: digit_end_def not_digit_chars)
  have ip: "int_part (digits_of n @ CHR ''.'' # fs @ rest) = digits_of n"
    by (rule int_part_digits[OF de])
  have fp: "frac_part (CHR ''.'' # fs @ rest) = Some fs"
    by (rule frac_part_digits[OF assms(3) number_end_digit_end[OF assms(1)]])
  have dr: "drop (Suc (length fs)) (CHR ''.'' # fs @ rest) = rest" by simp
  show ?thesis
    unfolding scan_number_def
    by (simp add: Let_def take1_digits_not_minus ip fp dr exp_part_end[OF assms(1)] assms(2)
          digits_of_nonempty nat_of_digits_append nat_of_digits_digits_of drop_length_append
          del: take_append drop_append)
qed

lemma scan_decimal_negative:
  assumes "number_end rest" and "fs \<noteq> []" and "\<forall>c\<in>set fs. is_digit c"
  shows "scan_number (CHR ''-'' # digits_of n @ CHR ''.'' # fs @ rest)
         = Some (TFloat (decimal_value True (n * 10 ^ length fs + nat_of_digits fs) (- int (length fs))),
                 Suc (length (digits_of n) + Suc (length fs)))"
proof -
  have de: "digit_end (CHR ''.'' # fs @ rest)" by (simp add: digit_end_def not_digit_chars)
  have ip: "int_part (digits_of n @ CHR ''.'' # fs @ rest) = digits_of n"
    by (rule int_part_digits[OF de])
  have fp: "frac_part (CHR ''.'' # fs @ rest) = Some fs"
    by (rule frac_part_digits[OF assms(3) number_end_digit_end[OF assms(1)]])
  have dr: "drop (Suc (length fs)) (CHR ''.'' # fs @ rest) = rest" by simp
  show ?thesis
    unfolding scan_number_def
    by (simp add: Let_def ip fp dr exp_part_end[OF assms(1)] assms(2)
          digits_of_nonempty nat_of_digits_append nat_of_digits_digits_of drop_length_append
          del: take_append drop_append)
qed

lemma exact_whole:
  assumes "0 \<le> q"
  shows "exact_ratio m q (m * 2 ^ nat q * 10 ^ length ''0'' + nat_of_digits ''0'') (10 ^ nat (- (- int (length ''0''))))"
  using assms by (simp add: exact_ratio_def nat_of_digits_def digit_val_zero)

lemma exact_fraction:
  assumes "q < 0" and "k = nat (- q)" and "n = m * 5 ^ k"
      and "L \<le> k" and "F * 10 ^ (k - L) = n mod 10 ^ k"
  shows "exact_ratio m q (n div 10 ^ k * 10 ^ L + F) (10 ^ L)"
proof -
  define X where "X = n div 10 ^ k * 10 ^ L + F"
  have p: "(10::nat) ^ L * 10 ^ (k - L) = 10 ^ k" using assms(4) by (simp flip: power_add)
  have "X * 10 ^ (k - L) = n div 10 ^ k * (10 ^ L * 10 ^ (k - L)) + F * 10 ^ (k - L)"
    by (simp add: X_def algebra_simps)
  also have "\<dots> = n div 10 ^ k * 10 ^ k + n mod 10 ^ k" by (simp only: p assms(5))
  also have "\<dots> = n" by (rule div_mult_mod_eq)
  finally have x: "X * 10 ^ (k - L) = m * 5 ^ k" by (simp add: assms(3))
  have t: "(5::nat) ^ k * 2 ^ k = 10 ^ k" by (simp flip: power_mult_distrib)
  have "(X * 2 ^ k) * 10 ^ (k - L) = (X * 10 ^ (k - L)) * 2 ^ k" by (simp add: mult_ac)
  also have "\<dots> = m * (5 ^ k * 2 ^ k)" by (simp only: x mult.assoc)
  also have "\<dots> = m * (10 ^ L * 10 ^ (k - L))" by (simp only: t p)
  also have "\<dots> = (m * 10 ^ L) * 10 ^ (k - L)" by (simp only: mult.assoc)
  finally have "X * 2 ^ k = m * 10 ^ L" by simp
  then show ?thesis using assms(1,2) by (simp add: exact_ratio_def X_def)
qed

lemma scan_dump_float:
  assumes "is_double (Fin s m q)" and "number_end rest"
  shows "scan_number (dump_float (Fin s m q) @ rest)
         = Some (TFloat (Fin s m q), length (dump_float (Fin s m q)))"
proof (cases "0 \<le> q")
  case True
  define N where "N = m * 2 ^ nat q"
  have r: "decimal_value s (N * 10 ^ length ''0'' + nat_of_digits ''0'') (- int (length ''0''))
           = Fin s m q"
    unfolding decimal_value_def N_def
    using round_exact[OF assms(1) exact_whole[OF True, of m], of] by simp
  have z: "''0'' \<noteq> []" "\<forall>c\<in>set ''0''. is_digit c" by (simp_all add: is_digit_zero)
  show ?thesis
  proof (cases s)
    case True
    have "dump_float (Fin s m q) @ rest = CHR ''-'' # digits_of N @ CHR ''.'' # ''0'' @ rest"
      using True \<open>0 \<le> q\<close> by (simp add: N_def)
    moreover have "length (dump_float (Fin s m q)) = Suc (length (digits_of N) + Suc (length ''0''))"
      using True \<open>0 \<le> q\<close> by (simp add: N_def)
    ultimately show ?thesis
      using scan_decimal_negative[OF assms(2) z, of N] r True by (simp only:)
  next
    case False
    have "dump_float (Fin s m q) @ rest = digits_of N @ CHR ''.'' # ''0'' @ rest"
      using False \<open>0 \<le> q\<close> by (simp add: N_def)
    moreover have "length (dump_float (Fin s m q)) = length (digits_of N) + Suc (length ''0'')"
      using False \<open>0 \<le> q\<close> by (simp add: N_def)
    ultimately show ?thesis
      using scan_decimal_unsigned[OF assms(2) z, of N] r False by (simp only:)
  qed
next
  case False
  define k where "k = nat (- q)"
  define n where "n = m * 5 ^ k"
  define fs where "fs = frac_digits k (n mod 10 ^ k)"
  have k: "0 < k" using False by (simp add: k_def)
  have "n mod 10 ^ k < 10 ^ k" by simp
  from frac_digits_spec[OF this k]
  have fs: "fs \<noteq> []" "\<forall>c\<in>set fs. is_digit c" "length fs \<le> k"
    "nat_of_digits fs * 10 ^ (k - length fs) = n mod 10 ^ k"
    by (simp_all add: fs_def)
  have q: "q < 0" using False by simp
  have L: "0 < length fs" using fs(1) by simp
  have r: "decimal_value s (n div 10 ^ k * 10 ^ length fs + nat_of_digits fs) (- int (length fs))
           = Fin s m q"
    unfolding decimal_value_def
    using round_exact[OF assms(1) exact_fraction[OF q k_def n_def fs(3,4)]] L by simp
  have df: "dump_float (Fin s m q)
            = (if s then ''-'' else []) @ digits_of (n div 10 ^ k) @ CHR ''.'' # fs"
    using False by (simp add: Let_def k_def n_def fs_def)
  show ?thesis
  proof (cases s)
    case True
    have "dump_float (Fin s m q) @ rest
          = CHR ''-'' # digits_of (n div 10 ^ k) @ CHR ''.'' # fs @ rest"
      unfolding df using True by simp
    moreover have "length (dump_float (Fin s m q))
          = Suc (length (digits_of (n div 10 ^ k)) + Suc (length fs))"
      unfolding df using True by simp
    ultimately show ?thesis
      using scan_decimal_negative[OF assms(2) fs(1,2), of "n div 10 ^ k"] r True by (simp only:)
  next
    case False
    have "dump_float (Fin s m q) @ rest
          = digits_of (n div 10 ^ k) @ CHR ''.'' # fs @ rest"
      unfolding df using False by simp
    moreover have "length (dump_float (Fin s m q))
          = length (digits_of (n div 10 ^ k)) + Suc (length fs)"
      unfolding df using False by simp
    ultimately show ?thesis
      using scan_decimal_unsigned[OF assms(2) fs(1,2), of "n div 10 ^ k"] r False by (simp only:)
  qed
qed

lemma lex_number:
  assumes "scan_number (c # cs) = Some (t, n)" and "c = CHR ''-'' \<or> is_digit c"
  shows "lex (c # cs) = t # lex (drop (n - 1) cs)"
proof -
  have "\<not> is_ws c" "c \<noteq> CHR ''{''" "c \<noteq> CHR ''}''" "c \<noteq> CHR ''[''" "c \<noteq> CHR '']''"
    "c \<noteq> CHR '':''" "c \<noteq> CHR '',''" "c \<noteq> CHR 0x22"
    using assms(2) by (auto simp add: is_ws_def is_digit_def byte_of_def)
  then show ?thesis using assms by (simp add: lex.simps(2)[of c cs])
qed

lemma lex_scanned:
  assumes "scan_number (txt @ rest) = Some (t, length txt)"
      and "txt = c # cs" and "c = CHR ''-'' \<or> is_digit c"
  shows "lex (txt @ rest) = t # lex rest"
proof -
  have "scan_number (c # (cs @ rest)) = Some (t, length txt)" using assms(1,2) by simp
  from lex_number[OF this assms(3)] show ?thesis using assms(2) by simp
qed

lemma dump_int_head: "\<exists>c cs. dump_int i = c # cs \<and> (c = CHR ''-'' \<or> is_digit c)"
proof (cases "i < 0")
  case True
  then show ?thesis by (simp add: dump_int_def)
next
  case False
  obtain d ds where "digits_of (nat i) = d # ds" "is_digit d" using digits_of_Cons by blast
  then show ?thesis using False by (simp add: dump_int_def)
qed

lemma dump_float_head:
  "\<exists>c cs. dump_float (Fin s m q) = c # cs \<and> (c = CHR ''-'' \<or> is_digit c)"
proof (cases s)
  case True
  then show ?thesis by simp
next
  case False
  obtain d ds where "digits_of (m * 2 ^ nat q) = d # ds" "is_digit d" using digits_of_Cons by blast
  moreover obtain d' ds' where "digits_of (m * 5 ^ nat (- q) div 10 ^ nat (- q)) = d' # ds'" "is_digit d'"
    using digits_of_Cons by blast
  ultimately show ?thesis using False by (simp add: Let_def)
qed

lemma lex_dump_int:
  assumes "number_end rest" and "- (2 ^ 63) \<le> i" and "i < 2 ^ 64"
  shows "lex (dump_int i @ rest) = TInt i # lex rest"
proof -
  obtain c cs where h: "dump_int i = c # cs" "c = CHR ''-'' \<or> is_digit c"
    using dump_int_head by blast
  from lex_scanned[OF scan_dump_int[OF assms] h] show ?thesis .
qed

lemma lex_dump_float:
  assumes "is_double (Fin s m q)" and "number_end rest"
  shows "lex (dump_float (Fin s m q) @ rest) = TFloat (Fin s m q) # lex rest"
proof -
  obtain c cs where h: "dump_float (Fin s m q) = c # cs" "c = CHR ''-'' \<or> is_digit c"
    using dump_float_head by blast
  from lex_scanned[OF scan_dump_float[OF assms] h] show ?thesis .
qed

lemma lex_null: "lex (''null'' @ rest) = TNull # lex rest"
  by (simp add: lex.simps(2)[of "CHR ''n''"] is_ws_def is_digit_def byte_of_def)

lemma dump_c_json: "dump_value pretty step cur (c_json c) = c_text c"
  by (cases c) (simp_all add: c_json_def c_text_def)

lemma record_value_eq:
  "record_value a b c alpha_plain beta_plain = JObject
     [(''polynomial'',
        JObject [(''a'', JInt a), (''b'', JInt b), (''c'', c_json c),
                 (''form'', JString ''ax^2 + bx + c = 0'')]),
      (''roots_base64'',
        JObject [(''alpha'', JString (to_base64 alpha_plain)),
                 (''beta'', JString (to_base64 beta_plain))])]"
  by (simp add: record_value_def json_object_def byte_of_def)

lemma key_texts:
  \<open>dump_string ''polynomial'' = ''"polynomial"''\<close>
  \<open>dump_string ''roots_base64'' = ''"roots_base64"''\<close>
  \<open>dump_string ''a'' = ''"a"''\<close>
  \<open>dump_string ''b'' = ''"b"''\<close>
  \<open>dump_string ''c'' = ''"c"''\<close>
  \<open>dump_string ''form'' = ''"form"''\<close>
  \<open>dump_string ''alpha'' = ''"alpha"''\<close>
  \<open>dump_string ''beta'' = ''"beta"''\<close>
  \<open>dump_string ''ax^2 + bx + c = 0'' = ''"ax^2 + bx + c = 0"''\<close>
  by (simp_all add: dump_string_def dump_escaped_def escape_char_def byte_of_def)

lemma dump_record:
  \<open>dump_value True 2 0 (record_value a b c alpha_plain beta_plain) @ ''\<newline>''
   = ''{\<newline>  "polynomial": {\<newline>    "a": '' @ dump_int a @ '',\<newline>    "b": '' @ dump_int b
     @ '',\<newline>    "c": '' @ c_text c
     @ '',\<newline>    "form": "ax^2 + bx + c = 0"\<newline>  },\<newline>  "roots_base64": {\<newline>    "alpha": ''
     @ dump_string (to_base64 alpha_plain) @ '',\<newline>    "beta": ''
     @ dump_string (to_base64 beta_plain) @ ''\<newline>  }\<newline>}\<newline>''\<close>
  by (simp add: record_value_eq key_texts indent_string_def dump_c_json)

lemma lex_seg_a:
  \<open>lex (''{\<newline>  "polynomial": {\<newline>    "a": '' @ rest)
   = TLBrace # TString ''polynomial'' # TColon # TLBrace # TString ''a'' # TColon # lex rest\<close>
  by (simp add: lex_eval)

lemma lex_seg_b: \<open>lex ('',\<newline>    "b": '' @ rest) = TComma # TString ''b'' # TColon # lex rest\<close>
  by (simp add: lex_eval)

lemma lex_seg_c: \<open>lex ('',\<newline>    "c": '' @ rest) = TComma # TString ''c'' # TColon # lex rest\<close>
  by (simp add: lex_eval)

lemma lex_seg_form:
  \<open>lex ('',\<newline>    "form": "ax^2 + bx + c = 0"\<newline>  },\<newline>  "roots_base64": {\<newline>    "alpha": '' @ rest)
   = TComma # TString ''form'' # TColon # TString ''ax^2 + bx + c = 0'' # TRBrace # TComma
     # TString ''roots_base64'' # TColon # TLBrace # TString ''alpha'' # TColon # lex rest\<close>
  by (simp add: lex_eval)

lemma lex_seg_beta:
  \<open>lex ('',\<newline>    "beta": '' @ rest) = TComma # TString ''beta'' # TColon # lex rest\<close>
  by (simp add: lex_eval)

lemma lex_seg_end: \<open>lex (''\<newline>  }\<newline>}\<newline>'') = [TRBrace, TRBrace]\<close>
  by (simp add: lex_eval)

lemma number_end_comma: "number_end ((CHR '','' # s) @ rest)"
  by (simp add: number_end_def is_digit_def byte_of_def)

lemma lex_c_text:
  assumes "c_double c" and "number_end rest"
  shows "lex (c_text c @ rest) = c_token c # lex rest"
proof (cases c)
  case None
  then show ?thesis using lex_null[of rest] by (simp add: c_text_def c_token_def described_def)
next
  case (Some x)
  show ?thesis
  proof (cases x)
    case (Fin s m q)
    then have "is_double (Fin s m q)" using assms(1) Some by (simp add: c_double_def)
    from lex_dump_float[OF this assms(2)] show ?thesis
      using Some Fin by (simp add: c_text_def c_token_def described_def is_finite_def)
  next
    case (Infinity s)
    then show ?thesis
      using Some lex_null[of rest] by (simp add: c_text_def c_token_def described_def is_finite_def)
  next
    case NaN
    then show ?thesis
      using Some lex_null[of rest] by (simp add: c_text_def c_token_def described_def is_finite_def)
  qed
qed

lemma plain_base64: "\<forall>c\<in>set (to_base64 s). plain_char c"
  using plain_to_base64 by blast

lemma is_int32_range: "is_int32 i \<Longrightarrow> - (2 ^ 63) \<le> i \<and> i < 2 ^ 64"
  by (simp add: is_int32_def)

lemma lex_record:
  assumes "is_int32 a" and "is_int32 b" and "c_double c"
  shows "lex (dump_value True 2 0 (record_value a b c alpha_plain beta_plain) @ [CHR 0x0A]) =
    [TLBrace, TString ''polynomial'', TColon, TLBrace,
       TString ''a'', TColon, TInt a, TComma,
       TString ''b'', TColon, TInt b, TComma,
       TString ''c'', TColon, c_token c, TComma,
       TString ''form'', TColon, TString ''ax^2 + bx + c = 0'', TRBrace, TComma,
     TString ''roots_base64'', TColon, TLBrace,
       TString ''alpha'', TColon, TString (to_base64 alpha_plain), TComma,
       TString ''beta'', TColon, TString (to_base64 beta_plain), TRBrace, TRBrace]"
proof -
  note ra = is_int32_range[OF assms(1)]
  note rb = is_int32_range[OF assms(2)]
  show ?thesis
    unfolding dump_record
    by (simp only: lex_seg_a lex_seg_b lex_seg_c lex_seg_form lex_seg_beta lex_seg_end
          lex_dump_int[OF number_end_comma conjunct1[OF ra] conjunct2[OF ra]]
          lex_dump_int[OF number_end_comma conjunct1[OF rb] conjunct2[OF rb]]
          lex_c_text[OF assms(3) number_end_comma]
          lex_string_plain[OF plain_base64])
qed

lemma parse_record_tokens:
  "parse_tokens
    [TLBrace, TString ''polynomial'', TColon, TLBrace,
       TString ''a'', TColon, TInt a, TComma,
       TString ''b'', TColon, TInt b, TComma,
       TString ''c'', TColon, c_token c, TComma,
       TString ''form'', TColon, TString ''ax^2 + bx + c = 0'', TRBrace, TComma,
     TString ''roots_base64'', TColon, TLBrace,
       TString ''alpha'', TColon, TString (to_base64 alpha_plain), TComma,
       TString ''beta'', TColon, TString (to_base64 beta_plain), TRBrace, TRBrace] PValue []
   = Inr (record_value a b (described c) alpha_plain beta_plain)"
proof (cases "described c")
  case None
  then show ?thesis by (simp add: record_value_eq c_token_def c_json_def byte_of_def)
next
  case (Some x)
  then have "is_finite x" by (auto simp add: described_def split: option.splits if_splits)
  then show ?thesis using Some by (simp add: record_value_eq c_token_def c_json_def byte_of_def)
qed

lemma skip_bom_record:
  "skip_bom (dump_value True 2 0 (record_value a b c alpha_plain beta_plain) @ [CHR 0x0A])
   = dump_value True 2 0 (record_value a b c alpha_plain beta_plain) @ [CHR 0x0A]"
  unfolding dump_record by (simp add: skip_bom_def)

lemma parse_record:
  assumes "is_int32 a" and "is_int32 b" and "c_double c"
  shows "parse (dump_value True 2 0 (record_value a b c alpha_plain beta_plain) @ [CHR 0x0A])
         = Inr (record_value a b (described c) alpha_plain beta_plain)"
  unfolding parse_def skip_bom_record lex_record[OF assms] by (rule parse_record_tokens)

lemma plain_literals:
  "\<forall>c\<in>set ''polynomial''. plain_char c" "\<forall>c\<in>set ''roots_base64''. plain_char c"
  "\<forall>c\<in>set ''a''. plain_char c" "\<forall>c\<in>set ''b''. plain_char c" "\<forall>c\<in>set ''c''. plain_char c"
  "\<forall>c\<in>set ''form''. plain_char c" "\<forall>c\<in>set ''alpha''. plain_char c"
  "\<forall>c\<in>set ''beta''. plain_char c" "\<forall>c\<in>set ''ax^2 + bx + c = 0''. plain_char c"
  by (simp_all add: plain_char_def byte_of_def)

lemma json_valid_record: "json_valid (record_value a b c alpha_plain beta_plain)"
proof -
  have "json_valid (c_json c)" by (cases c) (simp_all add: c_json_def)
  then show ?thesis
    by (simp add: record_value_eq utf8_valid_plain[OF plain_literals(1)]
          utf8_valid_plain[OF plain_literals(2)] utf8_valid_plain[OF plain_literals(3)]
          utf8_valid_plain[OF plain_literals(4)] utf8_valid_plain[OF plain_literals(5)]
          utf8_valid_plain[OF plain_literals(6)] utf8_valid_plain[OF plain_literals(7)]
          utf8_valid_plain[OF plain_literals(8)] utf8_valid_plain[OF plain_literals(9)]
          utf8_valid_plain[OF plain_base64])
qed

lemma described_text: "c_text (described c) = c_text c"
proof (cases c)
  case None
  then show ?thesis by (simp add: described_def)
next
  case (Some x)
  then show ?thesis by (cases x) (simp_all add: described_def c_text_def is_finite_def)
qed

lemma dump_described:
  "dump True 2 (record_value a b (described c) alpha_plain beta_plain)
   = dump True 2 (record_value a b c alpha_plain beta_plain)"
proof -
  have "dump_value True 2 0 (record_value a b (described c) alpha_plain beta_plain) @ [CHR 0x0A]
        = dump_value True 2 0 (record_value a b c alpha_plain beta_plain) @ [CHR 0x0A]"
    unfolding dump_record described_text ..
  then show ?thesis by (simp add: dump_def json_valid_record)
qed

lemma dump_value_described:
  "dump_value True 2 0 (record_value a b (described c) alpha_plain beta_plain) @ [CHR 0x0A]
   = dump_value True 2 0 (record_value a b c alpha_plain beta_plain) @ [CHR 0x0A]"
  unfolding dump_record described_text ..

lemma described_idem: "described (described c) = described c"
  by (simp add: described_def split: option.splits)

lemma c_double_described: "c_double c \<Longrightarrow> c_double (described c)"
  by (simp add: described_def c_double_def split: option.splits)

lemma data_is_record: "data = record_value 2 (- 7) None ''2'' ''5''"
  by (simp add: data_def record_value_def c_json_def Let_def)

lemma updated_is_record:
  "updated = record_value 2 (- 7) (Some (Fin False 5629499534213120 (- 48))) ''2'' ''5''"
  by (simp add: updated_def record_value_eq c_json_def to_base64_2 to_base64_5)

lemma dump_value_updated: "dump_value True 2 0 updated @ [CHR 0x0A] = second_text"
proof -
  have "butlast second_text @ [CHR 0x0A] = second_text" by (simp add: second_text_def)
  moreover have "dump_value True 2 0 updated = butlast second_text"
    using dump_updated by (simp add: dump_def split: if_splits)
  ultimately show ?thesis by simp
qed

section \<open>The claims\<close>



text \<open>
  Claim C3: with the built-in inputs, on a path that can be written and read back, the
  program prints \<open>alpha + beta = 7.0\<close> (the binary64 \<open>7881299347898368 * 2^-50\<close>) and
  the expected value \<open>-b / a = 3.5\<close> (the binary64 \<open>7881299347898368 * 2^-51\<close>, exactly
  \<open>7 / 2\<close>); the two differ, nothing compares them, and the run ends with status 0.
\<close>

theorem sum_check_printed_not_enforced:
  assumes "writable f" and "readable f"
  shows "fst (main f) = Exit0 printed
       \<and> SumLine (dadd (Fin False 4503599627370496 (- 51)) (Fin False 5629499534213120 (- 50)))
                  (ddiv (dneg (double_of_int (- 7))) (double_of_int 2)) \<in> set printed
       \<and> stod ''2'' = Inr (Fin False 4503599627370496 (- 51))
       \<and> stod ''5'' = Inr (Fin False 5629499534213120 (- 50))
       \<and> dadd (Fin False 4503599627370496 (- 51)) (Fin False 5629499534213120 (- 50))
           = Fin False 7881299347898368 (- 50)
       \<and> ddiv (dneg (double_of_int (- 7))) (double_of_int 2) = Fin False 7881299347898368 (- 51)
       \<and> exact_ratio 7881299347898368 (- 50) 7 1
       \<and> exact_ratio 7881299347898368 (- 51) 7 2
       \<and> Fin False 7881299347898368 (- 50) \<noteq> Fin False 7881299347898368 (- 51)"
  using assms
  by (simp add: main_full_run stod_2 stod_5 double_eval exact_ratio_def printed_def)

theorem sum_check_printed_not_enforced_witness:
  "writable \<lparr>content = Some ''junk'', writable = True, readable = True\<rparr>
   \<and> readable \<lparr>content = Some ''junk'', writable = True, readable = True\<rparr>
   \<and> fst (main \<lparr>content = Some ''junk'', writable = True, readable = True\<rparr>) = Exit0 printed
   \<and> SumLine (dadd (Fin False 4503599627370496 (- 51)) (Fin False 5629499534213120 (- 50)))
              (ddiv (dneg (double_of_int (- 7))) (double_of_int 2)) \<in> set printed
   \<and> Fin False 7881299347898368 (- 50) \<noteq> Fin False 7881299347898368 (- 51)"
proof -
  have w: "writable \<lparr>content = Some ''junk'', writable = True, readable = True\<rparr>"
    and r: "readable \<lparr>content = Some ''junk'', writable = True, readable = True\<rparr>"
    by simp_all
  from sum_check_printed_not_enforced [OF w r] w r show ?thesis by blast
qed

text \<open>
  Claim C4 says that a path that is not writable makes the write fail and the run abort
  with a non-zero status. It does not: on a file that cannot be written and holds the
  document of an earlier first write, both writes are ignored and the run ends with
  status 0, the file unchanged.
\<close>

theorem unwritable_path_not_fatal_counterexample:
  "\<not> writable \<lparr>content = Some first_text, writable = False, readable = True\<rparr>
   \<and> main \<lparr>content = Some first_text, writable = False, readable = True\<rparr>
       = (Exit0 printed, \<lparr>content = Some first_text, writable = False, readable = True\<rparr>)"
  by (simp add: main_unwritable_first)

text \<open>
  Claim C4, amended: if the path is not writable, the write leaves the file as it was and
  signals nothing to the caller. The run goes on to read back what the file already
  held: it aborts with the error of that read-back and update when there is one, and
  otherwise (the updated document holding well-formed UTF-8 strings) ends with status 0;
  in every case the file is unchanged.
\<close>

theorem unwritable_path_write_is_silent:
  assumes "\<not> writable f"
  shows "write_json data f = Inr f
       \<and> snd (main f) = f
       \<and> (\<forall>e. update_document (read_file f) = Inl e \<longrightarrow> fst (main f) = Aborted e)
       \<and> (\<forall>d out. update_document (read_file f) = Inr (d, out) \<and> json_valid d
             \<longrightarrow> fst (main f) = Exit0 ([JsonWritten] @ out @ [UpdatedWritten]))"
proof -
  have w: "write_json data f = Inr f" using assms by (simp add: write_first)
  have t: "truncated f = f" using assms by (simp add: truncated_def)
  have w2: "x = f" if "write_json d f = Inr x" for d x
    using that assms by (auto simp: write_json_def bind_def split: sum.splits)
  have "snd (main f) = f"
    by (auto simp: main_def w t split: sum.splits prod.splits dest: w2)
  moreover have "\<forall>e. update_document (read_file f) = Inl e \<longrightarrow> fst (main f) = Aborted e"
    by (simp add: main_def w)
  moreover have "\<forall>d out. update_document (read_file f) = Inr (d, out) \<and> json_valid d
             \<longrightarrow> fst (main f) = Exit0 ([JsonWritten] @ out @ [UpdatedWritten])"
    using assms by (simp add: main_def w write_json_valid)
  ultimately show ?thesis using w by blast
qed

theorem unwritable_path_write_is_silent_witness:
  "\<not> writable \<lparr>content = None, writable = False, readable = True\<rparr>
   \<and> update_document (read_file \<lparr>content = None, writable = False, readable = True\<rparr>)
       = Inl ParseError
   \<and> write_json data \<lparr>content = None, writable = False, readable = True\<rparr>
       = Inr \<lparr>content = None, writable = False, readable = True\<rparr>
   \<and> main \<lparr>content = None, writable = False, readable = True\<rparr>
       = (Aborted ParseError, \<lparr>content = None, writable = False, readable = True\<rparr>)"
proof -
  have u: "update_document (read_file \<lparr>content = None, writable = False, readable = True\<rparr>)
           = Inl ParseError"
    by (simp add: read_file_def update_parse_error[OF parse_empty])
  show ?thesis
    using unwritable_path_write_is_silent
            [of "\<lparr>content = None, writable = False, readable = True\<rparr>"] u
    by (simp add: prod_eq_iff)
qed

text \<open>
  Claim C5: the first document written holds \<open>polynomial.a = 2\<close>,
  \<open>polynomial.b = -7\<close>, the fixed form string, the base64 encodings of \<open>"2"\<close> and
  \<open>"5"\<close> under \<open>roots_base64\<close>, and \<open>polynomial.c\<close> as null (neither the number 0
  nor an empty string); its text is \<open>first_text\<close>, the serialization with an
  indentation of 2 spaces followed by a line break, and that is what a reader of the
  file gets when the file can be read.
\<close>

theorem first_document_has_null_c:
  assumes "writable f"
  shows "write_json data f = Inr (f\<lparr>content := Some first_text\<rparr>)
       \<and> dump True 2 data = Inr (butlast first_text)
       \<and> (readable f \<longrightarrow> read_file (f\<lparr>content := Some first_text\<rparr>) = first_text)
       \<and> field first_text ''polynomial'' ''a'' = Inr (JInt 2)
       \<and> field first_text ''polynomial'' ''b'' = Inr (JInt (- 7))
       \<and> field first_text ''polynomial'' ''form'' = Inr (JString ''ax^2 + bx + c = 0'')
       \<and> field first_text ''roots_base64'' ''alpha'' = Inr (JString (to_base64 ''2''))
       \<and> field first_text ''roots_base64'' ''beta'' = Inr (JString (to_base64 ''5''))
       \<and> field first_text ''polynomial'' ''c'' = Inr JNull
       \<and> JNull \<noteq> JInt 0 \<and> JNull \<noteq> JString []"
  using assms
  by (simp add: write_first dump_data read_file_def fields_first to_base64_2 to_base64_5)

theorem first_document_has_null_c_witness:
  "writable \<lparr>content = None, writable = True, readable = True\<rparr>
   \<and> readable \<lparr>content = None, writable = True, readable = True\<rparr>
   \<and> write_json data \<lparr>content = None, writable = True, readable = True\<rparr>
       = Inr \<lparr>content = Some first_text, writable = True, readable = True\<rparr>
   \<and> read_file \<lparr>content = Some first_text, writable = True, readable = True\<rparr> = first_text
   \<and> field first_text ''polynomial'' ''c'' = Inr JNull"
  using first_document_has_null_c [of "\<lparr>content = None, writable = True, readable = True\<rparr>"]
  by simp

text \<open>
  Claim C6: if the file is missing, cannot be read or is malformed when it is read back,
  the run aborts with the parser's error and leaves the file as it was at the read (no
  retry, no second write); and a run whose steps all succeed ends with status 0.
\<close>

theorem read_back_failure_is_fatal:
  assumes "write_json data f = Inr f1"
  shows "(content f1 = None \<longrightarrow> main f = (Aborted ParseError, f1))
       \<and> (\<not> readable f1 \<longrightarrow> main f = (Aborted ParseError, f1))
       \<and> (\<forall>e. parse (read_file f1) = Inl e \<longrightarrow> main f = (Aborted e, f1))
       \<and> (\<forall>d out f2. update_document (read_file f1) = Inr (d, out) \<and> write_json d f1 = Inr f2
             \<longrightarrow> main f = (Exit0 ([JsonWritten] @ out @ [UpdatedWritten]), f2))"
  using assms
  by (auto simp: main_def read_file_def parse_empty update_parse_error split: option.splits)

theorem read_back_failure_is_fatal_witness:
  "write_json data \<lparr>content = None, writable = False, readable = True\<rparr>
     = Inr \<lparr>content = None, writable = False, readable = True\<rparr>
   \<and> content \<lparr>content = None, writable = False, readable = True\<rparr> = None
   \<and> main \<lparr>content = None, writable = False, readable = True\<rparr>
       = (Aborted ParseError, \<lparr>content = None, writable = False, readable = True\<rparr>)
   \<and> write_json data \<lparr>content = Some ''{'', writable = False, readable = True\<rparr>
       = Inr \<lparr>content = Some ''{'', writable = False, readable = True\<rparr>
   \<and> parse (read_file \<lparr>content = Some ''{'', writable = False, readable = True\<rparr>) = Inl ParseError
   \<and> main \<lparr>content = Some ''{'', writable = False, readable = True\<rparr>
       = (Aborted ParseError, \<lparr>content = Some ''{'', writable = False, readable = True\<rparr>)
   \<and> write_json data \<lparr>content = None, writable = True, readable = False\<rparr>
       = Inr \<lparr>content = Some first_text, writable = True, readable = False\<rparr>
   \<and> \<not> readable \<lparr>content = Some first_text, writable = True, readable = False\<rparr>
   \<and> main \<lparr>content = None, writable = True, readable = False\<rparr>
       = (Aborted ParseError, \<lparr>content = Some first_text, writable = True, readable = False\<rparr>)
   \<and> write_json data \<lparr>content = None, writable = True, readable = True\<rparr>
       = Inr \<lparr>content = Some first_text, writable = True, readable = True\<rparr>
   \<and> update_document (read_file \<lparr>content = Some first_text, writable = True, readable = True\<rparr>)
       = Inr (updated, butlast (tl printed))
   \<and> write_json updated \<lparr>content = Some first_text, writable = True, readable = True\<rparr>
       = Inr \<lparr>content = Some second_text, writable = True, readable = True\<rparr>
   \<and> main \<lparr>content = None, writable = True, readable = True\<rparr>
       = (Exit0 printed, \<lparr>content = Some second_text, writable = True, readable = True\<rparr>)"
proof -
  have a: "write_json data \<lparr>content = None, writable = False, readable = True\<rparr>
           = Inr \<lparr>content = None, writable = False, readable = True\<rparr>"
    by (simp add: write_first)
  have b: "write_json data \<lparr>content = Some ''{'', writable = False, readable = True\<rparr>
           = Inr \<lparr>content = Some ''{'', writable = False, readable = True\<rparr>"
    by (simp add: write_first)
  have pb: "parse (read_file \<lparr>content = Some ''{'', writable = False, readable = True\<rparr>)
            = Inl ParseError"
    by (simp add: read_file_def parse_def skip_bom_def lex.simps is_ws_def)
  have n: "write_json data \<lparr>content = None, writable = True, readable = False\<rparr>
           = Inr \<lparr>content = Some first_text, writable = True, readable = False\<rparr>"
    by (simp add: write_first)
  have c: "write_json data \<lparr>content = None, writable = True, readable = True\<rparr>
           = Inr \<lparr>content = Some first_text, writable = True, readable = True\<rparr>"
    by (simp add: write_first)
  have u: "update_document (read_file \<lparr>content = Some first_text, writable = True, readable = True\<rparr>)
           = Inr (updated, butlast (tl printed))"
    by (simp add: read_file_def update_first)
  have w: "write_json updated \<lparr>content = Some first_text, writable = True, readable = True\<rparr>
           = Inr \<lparr>content = Some second_text, writable = True, readable = True\<rparr>"
    by (simp add: write_second)
  show ?thesis
    using read_back_failure_is_fatal [OF a] read_back_failure_is_fatal [OF b]
      read_back_failure_is_fatal [OF n] read_back_failure_is_fatal [OF c] a b pb n c u w
      printed_split
    by simp
qed





text \<open>
  Claim C9: for every record (two C++ \<open>int\<close> coefficients, a third coefficient that is
  \<open>null\<close> or a binary64 value, two roots in base64), on a file that can be written and
  read: writing the record, parsing the file, writing the parsed document and parsing the
  file again gives twice the same parsed document and twice the same file. The parsed
  document is the record itself, but for a coefficient \<open>c\<close> that is an infinity or a
  NaN, which the first file already shows as \<open>null\<close>.
\<close>

theorem reserialization_describes_same_values:
  assumes "is_int32 a" and "is_int32 b" and "c_double c" and "writable f" and "readable f"
  shows "reserialize (record_value a b c alpha_plain beta_plain) f
         = Inr ((record_value a b (described c) alpha_plain beta_plain,
                 f\<lparr>content := Some (dump_value True 2 0 (record_value a b c alpha_plain beta_plain)
                                     @ [CHR 0x0A])\<rparr>),
                (record_value a b (described c) alpha_plain beta_plain,
                 f\<lparr>content := Some (dump_value True 2 0 (record_value a b c alpha_plain beta_plain)
                                     @ [CHR 0x0A])\<rparr>))"
proof -
  define doc where "doc = dump_value True 2 0 (record_value a b c alpha_plain beta_plain) @ [CHR 0x0A]"
  define f1 where "f1 = f\<lparr>content := Some doc\<rparr>"
  define r1 where "r1 = record_value a b (described c) alpha_plain beta_plain"
  have w1: "write_json (record_value a b c alpha_plain beta_plain) f = Inr f1"
    using assms(4) by (simp add: write_json_valid[OF json_valid_record] f1_def doc_def)
  have rd: "read_file f1 = doc" using assms(5) by (simp add: read_file_def f1_def)
  have p1: "parse doc = Inr r1"
    unfolding doc_def r1_def by (rule parse_record[OF assms(1-3)])
  have w2: "write_json r1 f1 = Inr f1"
    using assms(4)
    by (simp add: r1_def write_json_valid[OF json_valid_record] dump_value_described f1_def doc_def)
  show ?thesis
    unfolding reserialize_def
    by (simp add: bind_def w1 rd p1 w2 flip: doc_def f1_def r1_def)
qed

theorem reserialization_describes_same_values_witness:
  "is_int32 2 \<and> is_int32 (- 7) \<and> c_double (Some (Fin False 5629499534213120 (- 48)))
   \<and> writable \<lparr>content = None, writable = True, readable = True\<rparr>
   \<and> readable \<lparr>content = None, writable = True, readable = True\<rparr>
   \<and> described (Some (Fin False 5629499534213120 (- 48))) = Some (Fin False 5629499534213120 (- 48))
   \<and> reserialize updated \<lparr>content = None, writable = True, readable = True\<rparr>
       = Inr ((updated, \<lparr>content = Some second_text, writable = True, readable = True\<rparr>),
              (updated, \<lparr>content = Some second_text, writable = True, readable = True\<rparr>))"
proof -
  have h: "is_int32 2" "is_int32 (- 7)" "c_double (Some (Fin False 5629499534213120 (- 48)))"
    "writable \<lparr>content = None, writable = True, readable = True\<rparr>"
    "readable \<lparr>content = None, writable = True, readable = True\<rparr>"
    by (simp_all add: is_int32_def c_double_def is_double_def)
  have d: "described (Some (Fin False 5629499534213120 (- 48))) = Some (Fin False 5629499534213120 (- 48))"
    by (simp add: described_def is_finite_def)
  from reserialization_describes_same_values [OF h, of "''2''" "''5''"] h d show ?thesis
    by (simp add: updated_is_record[symmetric] dump_value_updated)
qed




end
